theory Spec2Isabelle
  imports Complex_Main "HOL-Library.Sublist" "HOL-Library.Product_Lexorder"
begin

section \<open>Python values and exceptions\<close>

text \<open>
  The two scripts \<^verbatim>\<open>last_nonzero_score.py\<close> and \<^verbatim>\<open>last_participation.py\<close> are modelled
  function by function. A raised exception is the left summand of a result; the
  constructors are the exception classes the modelled statements can raise
  (\<open>ConnectionError\<close> stands for whatever \<^verbatim>\<open>session.get\<close> raises).

  A Python \<^verbatim>\<open>str\<close> is a \<open>string\<close>; its characters are the code points below 256.
\<close>

datatype error = KeyError | IndexError | ValueError | TypeError | ConnectionError

text \<open>
  A Python \<^verbatim>\<open>float\<close> as \<^verbatim>\<open>json\<close> decodes it: a finite value, an infinity or a NaN. The
  scripts only ever compare a float with \<^verbatim>\<open>0\<close>.
\<close>

datatype pyfloat = Finite real | PosInf | NegInf | NaN

fun float_gt_zero :: "pyfloat \<Rightarrow> bool" where
  "float_gt_zero (Finite r) = (0 < r)"
| "float_gt_zero PosInf = True"
| "float_gt_zero NegInf = False"
| "float_gt_zero NaN = False"

text \<open>The decoded JSON value of a scalar field, tagged with its Python type.\<close>

datatype json = JNull | JBool bool | JInt int | JFloat pyfloat | JStr string

section \<open>String helpers of the Python library\<close>

text \<open>\<^verbatim>\<open>needle in hay\<close> on strings: \<open>needle\<close> occurs as a contiguous block of \<open>hay\<close>.\<close>

fun contains :: "string \<Rightarrow> string \<Rightarrow> bool" where
  "contains needle [] = (needle = [])"
| "contains needle (c # cs) = (prefix needle (c # cs) \<or> contains needle cs)"

text \<open>\<^verbatim>\<open>s.split(sep)\<close> for a one-character separator; the result is never empty.\<close>

fun split_on :: "char \<Rightarrow> string \<Rightarrow> string list" where
  "split_on sep [] = [[]]"
| "split_on sep (c # cs) =
     (let r = split_on sep cs in if c = sep then [] # r else (c # hd r) # tl r)"

text \<open>\<^verbatim>\<open>s.strip(chars)\<close>: drop the characters of \<open>chars\<close> from both ends.\<close>

definition strip :: "string \<Rightarrow> string \<Rightarrow> string" where
  "strip chars s =
     rev (dropWhile (\<lambda>c. c \<in> set chars) (rev (dropWhile (\<lambda>c. c \<in> set chars) s)))"

section \<open>Paginated fetcher\<close>

text \<open>\<^verbatim>\<open>link_info.split(';')[0].strip('<>')\<close>\<close>

definition link_url :: "string \<Rightarrow> string" where
  "link_url link_info = strip ''<>'' (hd (split_on CHR '';'' link_info))"

text \<open>
  One iteration of the loop of \<^verbatim>\<open>get_navigation\<close> on the triple
  \<open>(current_link, next_link, last_link)\<close>: three independent \<^verbatim>\<open>if\<close> statements.
\<close>

definition nav_step :: "string \<times> string \<times> string \<Rightarrow> string \<Rightarrow> string \<times> string \<times> string" where
  "nav_step nav link_info =
     (case nav of (current_link, next_link, last_link) \<Rightarrow>
        let current_link = (if contains ''rel=\"current\"'' link_info
                            then link_url link_info else current_link);
            next_link = (if contains ''rel=\"next\"'' link_info
                         then link_url link_info else next_link);
            last_link = (if contains ''rel=\"last\"'' link_info
                         then link_url link_info else last_link)
        in (current_link, next_link, last_link))"

definition get_navigation :: "string list \<Rightarrow> string \<times> string \<times> string" where
  "get_navigation link_list = foldl nav_step ('''', '''', '''') link_list"

text \<open>
  A response of the HTTP collaborator: the \<^verbatim>\<open>link\<close> header, if the response has one,
  and the decoded JSON array of the body. The server is a function from the requested
  URL to the response, or to the exception \<^verbatim>\<open>session.get\<close> raises.
\<close>

record 'a response =
  link :: "string option"
  body :: "'a list"

type_synonym 'a server = "string \<Rightarrow> error + 'a response"

text \<open>
  The \<^verbatim>\<open>while True\<close> loop of \<^verbatim>\<open>get_list\<close>. The state is \<open>url\<close>, \<open>this_list\<close> and the
  log of the URLs requested so far; the result is the returned list or the exception,
  with the log. A loop that runs forever has the value \<open>None\<close>.
\<close>

partial_function (option) get_list_loop ::
  "'a server \<Rightarrow> string \<Rightarrow> 'a list \<Rightarrow> string list \<Rightarrow> ((error + 'a list) \<times> string list) option"
where
  "get_list_loop session url this_list requested =
     (case session url of
        Inl e \<Rightarrow> Some (Inl e, requested @ [url])
      | Inr response \<Rightarrow>
          (case link response of
             None \<Rightarrow> Some (Inl KeyError, requested @ [url])
           | Some l \<Rightarrow>
               (case get_navigation (split_on CHR '','' l) of
                  (current_link, next_link, last_link) \<Rightarrow>
                    if current_link = last_link
                    then Some (Inr (this_list @ body response), requested @ [url])
                    else get_list_loop session next_link (this_list @ body response)
                           (requested @ [url]))))"

declare get_list_loop.simps [code]

definition get_list :: "'a server \<Rightarrow> string \<Rightarrow> ((error + 'a list) \<times> string list) option" where
  "get_list session first_url = get_list_loop session first_url [] []"

text \<open>
  The navigation triple the loop reads off a response, if it carries a \<^verbatim>\<open>link\<close> header.
\<close>

definition page_nav :: "'a response \<Rightarrow> (string \<times> string \<times> string) option" where
  "page_nav p = map_option (\<lambda>l. get_navigation (split_on CHR '','' l)) (link p)"

text \<open>
  A finite chain of pages served from \<open>url\<close> on: every page but the final one has a
  \<open>current\<close> link different from its \<open>last\<close> link and a \<open>next\<close> link leading to the
  following page; on the final page \<open>current\<close> equals \<open>last\<close>.
\<close>

fun page_chain :: "'a server \<Rightarrow> string \<Rightarrow> 'a response list \<Rightarrow> bool" where
  "page_chain session url [] = False"
| "page_chain session url [p] =
     (session url = Inr p \<and>
      (case page_nav p of None \<Rightarrow> False
       | Some (current_link, next_link, last_link) \<Rightarrow> current_link = last_link))"
| "page_chain session url (p # q # ps) =
     (session url = Inr p \<and>
      (case page_nav p of None \<Rightarrow> False
       | Some (current_link, next_link, last_link) \<Rightarrow>
           current_link \<noteq> last_link \<and> page_chain session next_link (q # ps)))"

text \<open>The URLs of the pages of a chain, in order.\<close>

fun chain_urls :: "string \<Rightarrow> 'a response list \<Rightarrow> string list" where
  "chain_urls url [] = []"
| "chain_urls url (p # ps) =
     url # chain_urls (case page_nav p of None \<Rightarrow> [] | Some (c, n, l) \<Rightarrow> n) ps"

text \<open>
  Example servers: three well-formed pages; three pages of which the second carries a
  link header with a next entry only; a page without link header.
\<close>

definition three_pages :: "nat server" where
  "three_pages url =
     (if url = ''u1'' then
        Inr \<lparr>link = Some ''<u1>; rel=\"current\",<u2>; rel=\"next\",<u1>; rel=\"first\",<u3>; rel=\"last\"'',
             body = [1, 2]\<rparr>
      else if url = ''u2'' then
        Inr \<lparr>link = Some ''<u2>; rel=\"current\",<u3>; rel=\"next\",<u1>; rel=\"first\",<u3>; rel=\"last\"'',
             body = [3, 4]\<rparr>
      else if url = ''u3'' then
        Inr \<lparr>link = Some ''<u3>; rel=\"current\",<u3>; rel=\"next\",<u1>; rel=\"first\",<u3>; rel=\"last\"'',
             body = [5]\<rparr>
      else Inl ConnectionError)"

definition three_pages_list :: "nat response list" where
  "three_pages_list =
     [\<lparr>link = Some ''<u1>; rel=\"current\",<u2>; rel=\"next\",<u1>; rel=\"first\",<u3>; rel=\"last\"'',
       body = [1, 2]\<rparr>,
      \<lparr>link = Some ''<u2>; rel=\"current\",<u3>; rel=\"next\",<u1>; rel=\"first\",<u3>; rel=\"last\"'',
       body = [3, 4]\<rparr>,
      \<lparr>link = Some ''<u3>; rel=\"current\",<u3>; rel=\"next\",<u1>; rel=\"first\",<u3>; rel=\"last\"'',
       body = [5]\<rparr>]"

definition broken_pages :: "nat server" where
  "broken_pages url =
     (if url = ''u1'' then
        Inr \<lparr>link = Some ''<u1>; rel=\"current\",<u2>; rel=\"next\",<u1>; rel=\"first\",<u3>; rel=\"last\"'',
             body = [1, 2]\<rparr>
      else if url = ''u2'' then
        Inr \<lparr>link = Some ''<u3>; rel=\"next\"'', body = [3, 4]\<rparr>
      else if url = ''u3'' then
        Inr \<lparr>link = Some ''<u3>; rel=\"current\",<u3>; rel=\"next\",<u1>; rel=\"first\",<u3>; rel=\"last\"'',
             body = [5]\<rparr>
      else Inl ConnectionError)"

definition no_link_page :: "nat server" where
  "no_link_page url = Inr \<lparr>link = None, body = [7]\<rparr>"

section \<open>Timestamp codec\<close>

text \<open>
  A naive \<^verbatim>\<open>datetime\<close> with second precision: year, month, day, hour, minute, second.
  Python compares two such values field by field in this order, which is the
  lexicographic order of the tuple.
\<close>

type_synonym datetime = "nat \<times> nat \<times> nat \<times> nat \<times> nat \<times> nat"

text \<open>The regular expression classes \<^verbatim>\<open>\d\<close> and \<^verbatim>\<open>[lo-hi]\<close> on code points below 256.\<close>

definition is_digit :: "char \<Rightarrow> bool" where
  "is_digit c = (c \<in> set ''0123456789'')"

definition in_range :: "char \<Rightarrow> char \<Rightarrow> char \<Rightarrow> bool" where
  "in_range lo hi c = ((of_char lo :: nat) \<le> of_char c \<and> (of_char c :: nat) \<le> of_char hi)"

text \<open>\<^verbatim>\<open>int(s)\<close> on a string of decimal digits, after leading blanks.\<close>

definition digit_val :: "char \<Rightarrow> nat" where
  "digit_val c = of_char c - 48"

definition int_of :: "string \<Rightarrow> nat" where
  "int_of s = foldl (\<lambda>a c. 10 * a + digit_val c) 0 (dropWhile (\<lambda>c. c = CHR '' '') s)"

text \<open>
  The groups that \<^verbatim>\<open>strptime\<close> substitutes for the directives of the format
  \<^verbatim>\<open>%Y-%m-%dT%H:%M:%SZ\<close>, each as the set of tokens it matches in full:
  \<^verbatim>\<open>%Y\<close> is \<^verbatim>\<open>\d\d\d\d\<close>, \<^verbatim>\<open>%m\<close> is \<^verbatim>\<open>1[0-2]|0[1-9]|[1-9]\<close>,
  \<^verbatim>\<open>%d\<close> is \<^verbatim>\<open>3[0-1]|[1-2]\d|0[1-9]|[1-9]| [1-9]\<close>, \<^verbatim>\<open>%H\<close> is \<^verbatim>\<open>2[0-3]|[0-1]\d|\d\<close>,
  \<^verbatim>\<open>%M\<close> is \<^verbatim>\<open>[0-5]\d|\d\<close> and \<^verbatim>\<open>%S\<close> is \<^verbatim>\<open>6[0-1]|[0-5]\d|\d\<close>.
\<close>

definition re_Y :: "string \<Rightarrow> bool" where
  "re_Y t = (length t = 4 \<and> list_all is_digit t)"

definition re_m :: "string \<Rightarrow> bool" where
  "re_m t = (case t of
       [a, b] \<Rightarrow> (a = CHR ''1'' \<and> in_range CHR ''0'' CHR ''2'' b)
                \<or> (a = CHR ''0'' \<and> in_range CHR ''1'' CHR ''9'' b)
     | [a] \<Rightarrow> in_range CHR ''1'' CHR ''9'' a
     | _ \<Rightarrow> False)"

definition re_d :: "string \<Rightarrow> bool" where
  "re_d t = (case t of
       [a, b] \<Rightarrow> (a = CHR ''3'' \<and> in_range CHR ''0'' CHR ''1'' b)
                \<or> (in_range CHR ''1'' CHR ''2'' a \<and> is_digit b)
                \<or> (a = CHR ''0'' \<and> in_range CHR ''1'' CHR ''9'' b)
                \<or> (a = CHR '' '' \<and> in_range CHR ''1'' CHR ''9'' b)
     | [a] \<Rightarrow> in_range CHR ''1'' CHR ''9'' a
     | _ \<Rightarrow> False)"

definition re_H :: "string \<Rightarrow> bool" where
  "re_H t = (case t of
       [a, b] \<Rightarrow> (a = CHR ''2'' \<and> in_range CHR ''0'' CHR ''3'' b)
                \<or> (in_range CHR ''0'' CHR ''1'' a \<and> is_digit b)
     | [a] \<Rightarrow> is_digit a
     | _ \<Rightarrow> False)"

definition re_M :: "string \<Rightarrow> bool" where
  "re_M t = (case t of
       [a, b] \<Rightarrow> in_range CHR ''0'' CHR ''5'' a \<and> is_digit b
     | [a] \<Rightarrow> is_digit a
     | _ \<Rightarrow> False)"

definition re_S :: "string \<Rightarrow> bool" where
  "re_S t = (case t of
       [a, b] \<Rightarrow> (a = CHR ''6'' \<and> in_range CHR ''0'' CHR ''1'' b)
                \<or> (in_range CHR ''0'' CHR ''5'' a \<and> is_digit b)
     | [a] \<Rightarrow> is_digit a
     | _ \<Rightarrow> False)"

text \<open>
  The text before the first character satisfying \<open>p\<close>, and the text after it. No group
  above matches a token containing one of the literals \<^verbatim>\<open>-\<close>, \<^verbatim>\<open>T\<close>, \<^verbatim>\<open>:\<close>, \<^verbatim>\<open>Z\<close> of the
  format, so the pattern matches a string exactly when cutting it at the literals in
  turn leaves six tokens that their groups match.
\<close>

definition split_literal :: "(char \<Rightarrow> bool) \<Rightarrow> string \<Rightarrow> (string \<times> string) option" where
  "split_literal p s =
     (case dropWhile (\<lambda>c. \<not> p c) s of
        [] \<Rightarrow> None
      | _ # rest \<Rightarrow> Some (takeWhile (\<lambda>c. \<not> p c) s, rest))"

definition is_leap :: "nat \<Rightarrow> bool" where
  "is_leap y = (y mod 4 = 0 \<and> (y mod 100 \<noteq> 0 \<or> y mod 400 = 0))"

definition days_in_month :: "nat \<Rightarrow> nat \<Rightarrow> nat" where
  "days_in_month y m =
     (if m = 2 then (if is_leap y then 29 else 28)
      else if m = 4 \<or> m = 6 \<or> m = 9 \<or> m = 11 then 30 else 31)"

text \<open>
  The constructor \<^verbatim>\<open>datetime(year, month, day, hour, minute, second)\<close>, which raises
  \<^verbatim>\<open>ValueError\<close> outside the ranges of the calendar.
\<close>

definition make_datetime :: "nat \<Rightarrow> nat \<Rightarrow> nat \<Rightarrow> nat \<Rightarrow> nat \<Rightarrow> nat \<Rightarrow> error + datetime" where
  "make_datetime y mo d h mi s =
     (if 1 \<le> y \<and> y \<le> 9999 \<and> 1 \<le> mo \<and> mo \<le> 12 \<and> 1 \<le> d \<and> d \<le> days_in_month y mo
         \<and> h \<le> 23 \<and> mi \<le> 59 \<and> s \<le> 59
      then Inr (y, mo, d, h, mi, s) else Inl ValueError)"

text \<open>
  \<^verbatim>\<open>datetime.strptime(z, '%Y-%m-%dT%H:%M:%SZ')\<close>. The pattern is compiled with
  \<^verbatim>\<open>IGNORECASE\<close>, so the literals \<^verbatim>\<open>T\<close> and \<^verbatim>\<open>Z\<close> match in either case; text after the
  match (unconverted data), a token its group does not match and a field outside the
  calendar all raise \<^verbatim>\<open>ValueError\<close>.
\<close>

definition strptime :: "string \<Rightarrow> error + datetime" where
  "strptime z =
     (case split_literal (\<lambda>c. c = CHR ''-'') z of None \<Rightarrow> Inl ValueError | Some (Y, r1) \<Rightarrow>
     (case split_literal (\<lambda>c. c = CHR ''-'') r1 of None \<Rightarrow> Inl ValueError | Some (m, r2) \<Rightarrow>
     (case split_literal (\<lambda>c. c = CHR ''T'' \<or> c = CHR ''t'') r2 of None \<Rightarrow> Inl ValueError | Some (d, r3) \<Rightarrow>
     (case split_literal (\<lambda>c. c = CHR '':'') r3 of None \<Rightarrow> Inl ValueError | Some (H, r4) \<Rightarrow>
     (case split_literal (\<lambda>c. c = CHR '':'') r4 of None \<Rightarrow> Inl ValueError | Some (M, r5) \<Rightarrow>
     (case split_literal (\<lambda>c. c = CHR ''Z'' \<or> c = CHR ''z'') r5 of None \<Rightarrow> Inl ValueError | Some (S, r6) \<Rightarrow>
        if r6 = [] \<and> re_Y Y \<and> re_m m \<and> re_d d \<and> re_H H \<and> re_M M \<and> re_S S
        then make_datetime (int_of Y) (int_of m) (int_of d) (int_of H) (int_of M) (int_of S)
        else Inl ValueError))))))"

fun z_to_dt :: "string option \<Rightarrow> error + datetime option" where
  "z_to_dt None = Inr None"
| "z_to_dt (Some z) = (case strptime z of Inl e \<Rightarrow> Inl e | Inr dto \<Rightarrow> Inr (Some dto))"

text \<open>
  \<^verbatim>\<open>dto.strftime('%Y-%m-%dT%H:%M:%SZ')\<close>. CPython hands the format to \<^verbatim>\<open>strftime\<close> of the C
  library. The fields \<^verbatim>\<open>%m\<close>, \<^verbatim>\<open>%d\<close>, \<^verbatim>\<open>%H\<close>, \<^verbatim>\<open>%M\<close> and \<^verbatim>\<open>%S\<close> are two digits, padded with
  a zero; they are below 100 in a \<^verbatim>\<open>datetime\<close>. The year \<^verbatim>\<open>%Y\<close> is printed by glibc as the
  decimal number it is, without padding: the year 999 is \<^verbatim>\<open>999\<close> and the year 5 is \<^verbatim>\<open>5\<close>.
\<close>

definition digit_char :: "nat \<Rightarrow> char" where
  "digit_char n = ''0123456789'' ! n"

definition pad2 :: "nat \<Rightarrow> string" where
  "pad2 n = [digit_char (n div 10 mod 10), digit_char (n mod 10)]"

fun str_nat :: "nat \<Rightarrow> string" where
  "str_nat n = (if n < 10 then [digit_char n] else str_nat (n div 10) @ [digit_char (n mod 10)])"

declare str_nat.simps [simp del]

fun dt_to_z :: "datetime option \<Rightarrow> string option" where
  "dt_to_z None = None"
| "dt_to_z (Some (y, mo, d, h, mi, s)) =
     Some (str_nat y @ ''-'' @ pad2 mo @ ''-'' @ pad2 d @ ''T'' @ pad2 h @ '':'' @ pad2 mi @ '':''
           @ pad2 s @ ''Z'')"

text \<open>
  A valid \<^verbatim>\<open>YYYY-MM-DDTHH:MM:SSZ\<close> timestamp, stated on the positions of the string: twenty
  characters, digits and the literals in their places, and fields that name an instant
  of the calendar. \<open>z_fields\<close> is the instant the string names.
\<close>

definition z_fields :: "string \<Rightarrow> datetime" where
  "z_fields s =
     (int_of (take 4 s), int_of (take 2 (drop 5 s)), int_of (take 2 (drop 8 s)),
      int_of (take 2 (drop 11 s)), int_of (take 2 (drop 14 s)), int_of (take 2 (drop 17 s)))"

definition valid_z :: "string \<Rightarrow> bool" where
  "valid_z s =
     (length s = 20
      \<and> list_all (\<lambda>i. is_digit (s ! i)) [0, 1, 2, 3, 5, 6, 8, 9, 11, 12, 14, 15, 17, 18]
      \<and> s ! 4 = CHR ''-'' \<and> s ! 7 = CHR ''-'' \<and> s ! 10 = CHR ''T''
      \<and> s ! 13 = CHR '':'' \<and> s ! 16 = CHR '':'' \<and> s ! 19 = CHR ''Z''
      \<and> (case z_fields s of (y, mo, d, h, mi, se) \<Rightarrow>
            1 \<le> y \<and> 1 \<le> mo \<and> mo \<le> 12 \<and> 1 \<le> d \<and> d \<le> days_in_month y mo
            \<and> h \<le> 23 \<and> mi \<le> 59 \<and> se \<le> 59))"

section \<open>Course snapshot\<close>

text \<open>
  The fields of the decoded JSON records that the aggregation reads. A user id stands
  for the key \<^verbatim>\<open>str(user_id)\<close>: \<^verbatim>\<open>str\<close> is one-to-one on the integers of the API.
  Of the \<^verbatim>\<open>dict\<close> \<^verbatim>\<open>students\<close> the aggregation reads the keys only, so \<open>students\<close> is the
  list of its keys. The gradebook that \<^verbatim>\<open>last_nonzero_score.py\<close> builds is read by
  nothing and is left out.
\<close>

record assignment =
  due_at :: "string option"

record submission =
  user_id :: int
  score :: json
  submitted_at :: "string option"

text \<open>
  A Python \<^verbatim>\<open>dict\<close> in insertion order: the list of its items, with distinct keys. A
  subscript raises \<^verbatim>\<open>KeyError\<close> on a missing key; a loop over the \<^verbatim>\<open>dict\<close> that only
  subscripts it with the loop variable is a loop over the items.
\<close>

type_synonym ('k, 'v) dict = "('k \<times> 'v) list"

definition dict_get :: "('k, 'v) dict \<Rightarrow> 'k \<Rightarrow> error + 'v" where
  "dict_get d k = (case map_of d k of None \<Rightarrow> Inl KeyError | Some v \<Rightarrow> Inr v)"

text \<open>
  The per-student results \<^verbatim>\<open>last_non_zero_score\<close> and \<^verbatim>\<open>last_submission\<close>: a \<^verbatim>\<open>dict\<close> from
  student key to a \<^verbatim>\<open>datetime\<close> or \<^verbatim>\<open>None\<close>, read and updated by key only.
  \<open>seed students v\<close> is \<^verbatim>\<open>{student_id: v for student_id in students}\<close>.
\<close>

type_synonym result = "int \<rightharpoonup> datetime option"

definition seed :: "int list \<Rightarrow> datetime option \<Rightarrow> result" where
  "seed students v = (\<lambda>student_id. if student_id \<in> set students then Some v else None)"

text \<open>A \<^verbatim>\<open>for\<close> loop whose body may raise: the first exception ends the loop.\<close>

fun for_each :: "('s \<Rightarrow> 'a \<Rightarrow> error + 's) \<Rightarrow> 'a list \<Rightarrow> 's \<Rightarrow> error + 's" where
  "for_each step [] s = Inr s"
| "for_each step (x # xs) s =
     (case step s x of Inl e \<Rightarrow> Inl e | Inr s' \<Rightarrow> for_each step xs s')"

section \<open>Chronological aggregator\<close>

text \<open>
  \<^verbatim>\<open>[z_to_dt(assignments[a]['due_at']) for a in assignments]\<close>: the first string that does
  not parse raises.
\<close>

fun parse_all :: "string option list \<Rightarrow> error + datetime option list" where
  "parse_all [] = Inr []"
| "parse_all (z # zs) =
     (case z_to_dt z of
        Inl e \<Rightarrow> Inl e
      | Inr d \<Rightarrow> (case parse_all zs of Inl e \<Rightarrow> Inl e | Inr ds \<Rightarrow> Inr (d # ds)))"

text \<open>\<^verbatim>\<open>[date for date in due_dates if date is not None]\<close>\<close>

definition somes :: "'a option list \<Rightarrow> 'a list" where
  "somes ds = concat (map (\<lambda>date. case date of None \<Rightarrow> [] | Some d \<Rightarrow> [d]) ds)"

text \<open>
  \<^verbatim>\<open>list(set(...))\<close> of these dates, sorted, with \<^verbatim>\<open>None\<close> appended. Sorting a set gives
  the same list whatever the order of the set was, so the set is the list without its
  duplicates.
\<close>

definition due_date_buckets :: "'a::linorder option list \<Rightarrow> 'a option list" where
  "due_date_buckets ds = map Some (sort (remdups (somes ds))) @ [None]"

text \<open>
  \<^verbatim>\<open>[a for date in due_dates for a in assignments if z_to_dt(assignments[a]['due_at']) == date]\<close>.
  Every string parsed here was parsed before, so \<^verbatim>\<open>z_to_dt\<close> does not raise here.
\<close>

definition assignments_by_due_date ::
  "(int, assignment) dict \<Rightarrow> datetime option list \<Rightarrow> int list" where
  "assignments_by_due_date assignments due_dates =
     concat (map (\<lambda>date. map fst (filter (\<lambda>(a, r). z_to_dt (due_at r) = Inr date) assignments))
       due_dates)"

text \<open>\<^verbatim>\<open>z_to_dt(assignments[assignments_by_due_date[0]]['due_at'])\<close>\<close>

definition first_due_date :: "(int, assignment) dict \<Rightarrow> int list \<Rightarrow> error + datetime option" where
  "first_due_date assignments ordered =
     (case ordered of
        [] \<Rightarrow> Inl IndexError
      | a # _ \<Rightarrow> (case dict_get assignments a of Inl e \<Rightarrow> Inl e | Inr r \<Rightarrow> z_to_dt (due_at r)))"

text \<open>
  The statements from \<^verbatim>\<open>due_dates = ...\<close> to \<^verbatim>\<open>first_due_date = ...\<close>, the same in both
  scripts: the ordering of the assignments and the seed value.
\<close>

definition order_and_seed :: "(int, assignment) dict \<Rightarrow> error + (int list \<times> datetime option)" where
  "order_and_seed assignments =
     (case parse_all (map (\<lambda>(a, r). due_at r) assignments) of
        Inl e \<Rightarrow> Inl e
      | Inr due_dates \<Rightarrow>
          (let ordered = assignments_by_due_date assignments (due_date_buckets due_dates)
           in case first_due_date assignments ordered of
                Inl e \<Rightarrow> Inl e
              | Inr first \<Rightarrow> Inr (ordered, first)))"

text \<open>
  The body of the inner loop of the nonzero-score walk in \<^verbatim>\<open>last_participation.py\<close>
  (lines 142 to 151). Comparing a \<^verbatim>\<open>datetime\<close> with \<^verbatim>\<open>None\<close> raises \<^verbatim>\<open>TypeError\<close>.
\<close>

definition nonzero_step_lp ::
  "(int, assignment) dict \<Rightarrow> int list \<Rightarrow> int \<Rightarrow> result \<Rightarrow> submission \<Rightarrow> error + result" where
  "nonzero_step_lp assignments students assignment_id last_non_zero_score submission =
     (case score submission of
        JFloat x \<Rightarrow>
          (case dict_get assignments assignment_id of
             Inl e \<Rightarrow> Inl e
           | Inr r \<Rightarrow>
               (case z_to_dt (due_at r) of
                  Inl e \<Rightarrow> Inl e
                | Inr None \<Rightarrow> Inr last_non_zero_score
                | Inr (Some assignment_date) \<Rightarrow>
                    if user_id submission \<notin> set students then Inr last_non_zero_score
                    else if float_gt_zero x then
                      (case last_non_zero_score (user_id submission) of
                         None \<Rightarrow> Inl KeyError
                       | Some None \<Rightarrow> Inl TypeError
                       | Some (Some current) \<Rightarrow>
                           if assignment_date > current
                           then Inr (last_non_zero_score(user_id submission \<mapsto> Some assignment_date))
                           else Inr last_non_zero_score)
                    else Inr last_non_zero_score))
      | _ \<Rightarrow> Inr last_non_zero_score)"

text \<open>
  The same body in \<^verbatim>\<open>last_nonzero_score.py\<close> (lines 175 to 182): there is no test that
  the student is active; \<^verbatim>\<open>last_non_zero_score[student]\<close> is read only when the score
  is above zero.
\<close>

definition nonzero_step_ns ::
  "(int, assignment) dict \<Rightarrow> int \<Rightarrow> result \<Rightarrow> submission \<Rightarrow> error + result" where
  "nonzero_step_ns assignments assignment_id last_non_zero_score submission =
     (case score submission of
        JFloat x \<Rightarrow>
          (case dict_get assignments assignment_id of
             Inl e \<Rightarrow> Inl e
           | Inr r \<Rightarrow>
               (case z_to_dt (due_at r) of
                  Inl e \<Rightarrow> Inl e
                | Inr None \<Rightarrow> Inr last_non_zero_score
                | Inr (Some assignment_date) \<Rightarrow>
                    if float_gt_zero x then
                      (case last_non_zero_score (user_id submission) of
                         None \<Rightarrow> Inl KeyError
                       | Some None \<Rightarrow> Inl TypeError
                       | Some (Some current) \<Rightarrow>
                           if assignment_date > current
                           then Inr (last_non_zero_score(user_id submission \<mapsto> Some assignment_date))
                           else Inr last_non_zero_score)
                    else Inr last_non_zero_score))
      | _ \<Rightarrow> Inr last_non_zero_score)"

text \<open>
  The walk \<^verbatim>\<open>for assignment_id in ...: for submission in all_submissions[assignment_id]:\<close>
  with a given loop body \<open>step\<close>.
\<close>

definition walk ::
  "(int \<Rightarrow> result \<Rightarrow> submission \<Rightarrow> error + result) \<Rightarrow> (int, submission list) dict \<Rightarrow>
   int list \<Rightarrow> result \<Rightarrow> error + result" where
  "walk step all_submissions ordered start =
     for_each (\<lambda>m assignment_id.
         case dict_get all_submissions assignment_id of
           Inl e \<Rightarrow> Inl e
         | Inr submissions \<Rightarrow> for_each (step assignment_id) submissions m)
       ordered start"

text \<open>The nonzero-score aggregation of each script, from the ordering to the end of the walk.\<close>

definition last_non_zero_score_lp ::
  "(int, assignment) dict \<Rightarrow> (int, submission list) dict \<Rightarrow> int list \<Rightarrow> error + result" where
  "last_non_zero_score_lp assignments all_submissions students =
     (case order_and_seed assignments of
        Inl e \<Rightarrow> Inl e
      | Inr (ordered, first) \<Rightarrow>
          walk (nonzero_step_lp assignments students) all_submissions ordered (seed students first))"

definition last_non_zero_score_ns ::
  "(int, assignment) dict \<Rightarrow> (int, submission list) dict \<Rightarrow> int list \<Rightarrow> error + result" where
  "last_non_zero_score_ns assignments all_submissions students =
     (case order_and_seed assignments of
        Inl e \<Rightarrow> Inl e
      | Inr (ordered, first) \<Rightarrow>
          walk (nonzero_step_ns assignments) all_submissions ordered (seed students first))"

text \<open>
  The body of the inner loop of the last-submission walk (lines 160 to 171 of
  \<^verbatim>\<open>last_participation.py\<close>), and the walk over all the items of \<^verbatim>\<open>all_submissions\<close>.
\<close>

definition last_submission_step :: "int list \<Rightarrow> result \<Rightarrow> submission \<Rightarrow> error + result" where
  "last_submission_step students last_submission submission =
     (case z_to_dt (submitted_at submission) of
        Inl e \<Rightarrow> Inl e
      | Inr None \<Rightarrow> Inr last_submission
      | Inr (Some t) \<Rightarrow>
          if user_id submission \<notin> set students then Inr last_submission
          else
            (case last_submission (user_id submission) of
               None \<Rightarrow> Inl KeyError
             | Some None \<Rightarrow> Inr (last_submission(user_id submission \<mapsto> Some t))
             | Some (Some current) \<Rightarrow>
                 if t > current then Inr (last_submission(user_id submission \<mapsto> Some t))
                 else Inr last_submission))"

definition last_submission_lp :: "(int, submission list) dict \<Rightarrow> int list \<Rightarrow> error + result" where
  "last_submission_lp all_submissions students =
     for_each (\<lambda>m (submission_id, submissions). for_each (last_submission_step students) submissions m)
       all_submissions (seed students None)"

text \<open>\<^verbatim>\<open>last_participation.py\<close> from the ordering on: the two results that are exported.\<close>

definition last_participation ::
  "(int, assignment) dict \<Rightarrow> (int, submission list) dict \<Rightarrow> int list \<Rightarrow> error + (result \<times> result)" where
  "last_participation assignments all_submissions students =
     (case last_non_zero_score_lp assignments all_submissions students of
        Inl e \<Rightarrow> Inl e
      | Inr last_non_zero_score \<Rightarrow>
          (case last_submission_lp all_submissions students of
             Inl e \<Rightarrow> Inl e
           | Inr last_submission \<Rightarrow> Inr (last_non_zero_score, last_submission)))"

section \<open>Notions of the specification\<close>

text \<open>
  A snapshot as the builder leaves it: the keys of \<^verbatim>\<open>assignments\<close> are distinct,
  \<^verbatim>\<open>all_submissions\<close> has the same keys in the same order, and every due date parses.
\<close>

definition due_parses :: "assignment \<Rightarrow> bool" where
  "due_parses r = (case z_to_dt (due_at r) of Inl e \<Rightarrow> False | Inr d \<Rightarrow> True)"

definition snapshot_ok :: "(int, assignment) dict \<Rightarrow> (int, submission list) dict \<Rightarrow> bool" where
  "snapshot_ok assignments all_submissions =
     (distinct (map fst assignments) \<and> map fst all_submissions = map fst assignments
      \<and> list_all (\<lambda>(a, r). due_parses r) assignments)"

text \<open>
  The due date of an assignment, if it has one; the due dates of the dated
  assignments of the course, whose minimum is the earliest due date.
\<close>

definition due_date :: "assignment \<Rightarrow> datetime option" where
  "due_date r = (case z_to_dt (due_at r) of Inl e \<Rightarrow> None | Inr d \<Rightarrow> d)"

definition dated :: "(int, assignment) dict \<Rightarrow> datetime list" where
  "dated assignments = somes (map (\<lambda>(a, r). due_date r) assignments)"

text \<open>
  A strictly positive score, read off the value of the score: a number of either
  numeric type that is greater than zero; and the narrower notion of a number of type
  float that is greater than zero. A NaN is greater than nothing.
\<close>

definition numeric_positive :: "json \<Rightarrow> bool" where
  "numeric_positive j =
     (case j of JInt i \<Rightarrow> 0 < i | JFloat (Finite r) \<Rightarrow> 0 < r | JFloat PosInf \<Rightarrow> True | _ \<Rightarrow> False)"

definition float_positive :: "json \<Rightarrow> bool" where
  "float_positive j = (case j of JFloat (Finite r) \<Rightarrow> 0 < r | JFloat PosInf \<Rightarrow> True | _ \<Rightarrow> False)"

text \<open>
  The submissions of an assignment. For a notion \<open>positive\<close> of a strictly positive score
  and a student: the student's submissions that count, the due date of an assignment
  once for each of the student's submissions on it that counts (nothing for an
  assignment without due date), and these due dates over all the assignments.
\<close>

definition counted :: "(json \<Rightarrow> bool) \<Rightarrow> int \<Rightarrow> submission \<Rightarrow> bool" where
  "counted positive student sub = (user_id sub = student \<and> positive (score sub))"

definition submissions_of :: "(int, submission list) dict \<Rightarrow> int \<Rightarrow> submission list" where
  "submissions_of all_submissions a = (case map_of all_submissions a of None \<Rightarrow> [] | Some l \<Rightarrow> l)"

definition assignment_dates ::
  "(json \<Rightarrow> bool) \<Rightarrow> (int, assignment) dict \<Rightarrow> (int, submission list) dict \<Rightarrow> int \<Rightarrow> int \<Rightarrow>
   datetime list" where
  "assignment_dates positive assignments all_submissions student a =
     (case map_of assignments a of
        None \<Rightarrow> []
      | Some r \<Rightarrow>
          (case due_date r of
             None \<Rightarrow> []
           | Some d \<Rightarrow>
               map (\<lambda>sub. d)
                 (filter (counted positive student) (submissions_of all_submissions a))))"

definition positive_dates ::
  "(json \<Rightarrow> bool) \<Rightarrow> (int, assignment) dict \<Rightarrow> (int, submission list) dict \<Rightarrow> int \<Rightarrow>
   datetime list" where
  "positive_dates positive assignments all_submissions student =
     concat (map (assignment_dates positive assignments all_submissions student)
       (map fst assignments))"

text \<open>
  The instants at which a student submitted, in a list of submissions and over all
  assignments; \<open>submitted_ok\<close> says that the timestamp of a submission parses.
\<close>

definition submitted_ok :: "submission \<Rightarrow> bool" where
  "submitted_ok sub = (case z_to_dt (submitted_at sub) of Inl e \<Rightarrow> False | Inr t \<Rightarrow> True)"

definition times_of :: "int \<Rightarrow> submission list \<Rightarrow> datetime list" where
  "times_of student subs =
     concat (map (\<lambda>sub. case z_to_dt (submitted_at sub) of Inr (Some t) \<Rightarrow> [t] | _ \<Rightarrow> [])
       (filter (\<lambda>sub. user_id sub = student) subs))"

definition submission_times :: "(int, submission list) dict \<Rightarrow> int \<Rightarrow> datetime list" where
  "submission_times all_submissions student = times_of student (concat (map snd all_submissions))"

text \<open>The later of a value of \<^verbatim>\<open>last_submission\<close> and an instant.\<close>

definition later :: "datetime option \<Rightarrow> datetime \<Rightarrow> datetime option" where
  "later v t = (case v of None \<Rightarrow> Some t | Some c \<Rightarrow> Some (max c t))"

text \<open>
  The course of the example of the specification: A is due on 2024-01-10 and ungraded
  for student 7, B is due on 2024-02-01 with score 5 for student 7, C has no due date,
  score 10 for student 7 and was submitted on 2024-03-01. Student 99 has submissions
  but no active enrolment; student 8 is active and has no submission.
\<close>

definition ex_assignments :: "(int, assignment) dict" where
  "ex_assignments =
     [(1, \<lparr>due_at = Some ''2024-01-10T00:00:00Z''\<rparr>),
      (2, \<lparr>due_at = Some ''2024-02-01T00:00:00Z''\<rparr>),
      (3, \<lparr>due_at = None\<rparr>)]"

definition ex_submissions :: "(int, submission list) dict" where
  "ex_submissions =
     [(1, [\<lparr>user_id = 7, score = JNull, submitted_at = None\<rparr>,
           \<lparr>user_id = 99, score = JFloat (Finite 0), submitted_at = Some ''2024-01-09T10:00:00Z''\<rparr>]),
      (2, [\<lparr>user_id = 7, score = JFloat (Finite 5), submitted_at = Some ''2024-01-30T12:00:00Z''\<rparr>]),
      (3, [\<lparr>user_id = 7, score = JFloat (Finite 10), submitted_at = Some ''2024-03-01T00:00:00Z''\<rparr>])]"

definition ex_students :: "int list" where
  "ex_students = [7, 8]"

text \<open>The same course when the score 5 of student 7 on B is of integer type.\<close>

definition integer_score_submissions :: "(int, submission list) dict" where
  "integer_score_submissions =
     [(1, [\<lparr>user_id = 7, score = JNull, submitted_at = None\<rparr>]),
      (2, [\<lparr>user_id = 7, score = JInt 5, submitted_at = Some ''2024-01-30T12:00:00Z''\<rparr>]),
      (3, [])]"

text \<open>The same course when a student without active enrolment has a score above zero.\<close>

definition dropped_submissions :: "(int, submission list) dict" where
  "dropped_submissions =
     [(1, [\<lparr>user_id = 99, score = JFloat (Finite 3), submitted_at = None\<rparr>]),
      (2, []),
      (3, [])]"

text \<open>
  A value of a result does not move back: it is unchanged, or both values are instants
  and the new one is strictly later.
\<close>

definition no_earlier :: "'a::linorder option option \<Rightarrow> 'a option option \<Rightarrow> bool" where
  "no_earlier v v' =
     (v' = v \<or> (case (v, v') of (Some (Some c), Some (Some c')) \<Rightarrow> c < c' | _ \<Rightarrow> False))"

section \<open>Properties of the paginated fetcher\<close>

lemmas nav_eval = page_nav_def get_navigation_def nav_step_def link_url_def strip_def

lemma get_list_loop_chain:
  "page_chain session url pages \<Longrightarrow>
   get_list_loop session url acc req =
     Some (Inr (acc @ concat (map body pages)), req @ chain_urls url pages)"
proof (induction session url pages arbitrary: acc req rule: page_chain.induct)
  case (1 session url)
  then show ?case by simp
next
  case (2 session url p)
  then show ?case
    by (subst get_list_loop.simps) (auto simp: page_nav_def split: option.splits)
next
  case (3 session url p q ps)
  then show ?case
    by (subst get_list_loop.simps) (auto simp: page_nav_def split: option.splits)
qed

lemma length_chain_urls: "length (chain_urls url pages) = length pages"
  by (induction pages arbitrary: url) auto

lemma chain_urls_served:
  "page_chain session url pages \<Longrightarrow> map session (chain_urls url pages) = map Inr pages"
  by (induction session url pages rule: page_chain.induct) (auto split: option.splits)

text \<open>
  C6. On a finite chain of pages \<open>P1, ..., Pn\<close> in which only the final page has its
  \<open>current\<close> link equal to its \<open>last\<close> link, \<open>get_list\<close> returns (so it terminates) the
  concatenation of the pages' records in page order, after exactly \<open>n\<close> requests, one
  per page. A chain of length one is the single-page case.
\<close>

theorem get_list_concatenates_chain:
  assumes "page_chain session first_url pages"
  shows "\<exists>requested. get_list session first_url = Some (Inr (concat (map body pages)), requested)
           \<and> length requested = length pages
           \<and> map session requested = map Inr pages"
  using assms
  by (simp add: get_list_def get_list_loop_chain length_chain_urls chain_urls_served)

theorem get_list_concatenates_chain_witness:
  "page_chain three_pages ''u1'' three_pages_list
   \<and> (\<exists>requested. get_list three_pages ''u1'' = Some (Inr [1, 2, 3, 4, 5], requested)
         \<and> length requested = 3)"
proof -
  have chain: "page_chain three_pages ''u1'' three_pages_list"
    by (simp add: three_pages_list_def three_pages_def nav_eval)
  have b: "concat (map body three_pages_list) = [1, 2, 3, 4, 5]" "length three_pages_list = 3"
    by (simp_all add: three_pages_list_def)
  from get_list_concatenates_chain [of three_pages "''u1''" three_pages_list, OF chain]
  show ?thesis
    unfolding b using chain by blast
qed

lemma foldl_nav_step_current:
  "list_all (\<lambda>li. \<not> contains ''rel=\"current\"'' li) xs \<Longrightarrow>
   fst (foldl nav_step (c, n, l) xs) = c"
  by (induction xs arbitrary: c n l) (auto simp: nav_step_def)

lemma foldl_nav_step_last:
  "list_all (\<lambda>li. \<not> contains ''rel=\"last\"'' li) xs \<Longrightarrow>
   snd (snd (foldl nav_step (c, n, l) xs)) = l"
  by (induction xs arbitrary: c n l) (auto simp: nav_step_def)

text \<open>
  C2 fails as stated: a link header with a \<open>next\<close> entry only gives the navigation
  triple \<open>('''', ''u3'', '''')\<close>, whose \<open>current\<close> and \<open>last\<close> are equal, so the loop ends
  there and returns the records of the first two pages without an error.
\<close>

theorem get_list_silent_partial_result:
  "page_nav \<lparr>link = Some ''<u3>; rel=\"next\"'', body = [3, 4::nat]\<rparr> = Some ('''', ''u3'', '''')
   \<and> get_list broken_pages ''u1'' = Some (Inr [1, 2, 3, 4], [''u1'', ''u2''])"
  apply (simp add: get_list_def nav_eval)
  apply (subst get_list_loop.simps, simp add: broken_pages_def nav_eval)
  apply (subst get_list_loop.simps, simp add: broken_pages_def nav_eval)
  done

text \<open>
  C2, amended. In any iteration of the loop of \<open>get_list\<close>: a response without link
  header makes the fetch fail with \<open>KeyError\<close>; a response whose link header has
  neither a \<open>rel="current"\<close> nor a \<open>rel="last"\<close> entry ends the loop, which returns the
  records accumulated so far together with that page's, without an error.
\<close>

theorem get_list_loop_bad_link:
  assumes "session url = Inr p"
  shows "(link p = None \<longrightarrow>
            get_list_loop session url this_list requested = Some (Inl KeyError, requested @ [url]))
       \<and> (\<forall>l. link p = Some l
              \<and> list_all (\<lambda>li. \<not> contains ''rel=\"current\"'' li) (split_on CHR '','' l)
              \<and> list_all (\<lambda>li. \<not> contains ''rel=\"last\"'' li) (split_on CHR '','' l) \<longrightarrow>
            get_list_loop session url this_list requested =
              Some (Inr (this_list @ body p), requested @ [url]))"
proof (intro conjI allI impI)
  assume "link p = None"
  with assms
  show "get_list_loop session url this_list requested = Some (Inl KeyError, requested @ [url])"
    by (subst get_list_loop.simps) simp
next
  fix l
  assume h: "link p = Some l
              \<and> list_all (\<lambda>li. \<not> contains ''rel=\"current\"'' li) (split_on CHR '','' l)
              \<and> list_all (\<lambda>li. \<not> contains ''rel=\"last\"'' li) (split_on CHR '','' l)"
  obtain c n la where nav: "get_navigation (split_on CHR '','' l) = (c, n, la)"
    by (cases "get_navigation (split_on CHR '','' l)") auto
  from h have "fst (get_navigation (split_on CHR '','' l)) = ''''"
    unfolding get_navigation_def by (intro foldl_nav_step_current) simp
  moreover from h have "snd (snd (get_navigation (split_on CHR '','' l))) = ''''"
    unfolding get_navigation_def by (intro foldl_nav_step_last) simp
  ultimately have "c = la" using nav by simp
  with assms h nav
  show "get_list_loop session url this_list requested =
          Some (Inr (this_list @ body p), requested @ [url])"
    by (subst get_list_loop.simps) simp
qed

theorem get_list_loop_bad_link_witness:
  "no_link_page ''u1'' = Inr \<lparr>link = None, body = [7]\<rparr>
   \<and> get_list_loop no_link_page ''u1'' [] [] = Some (Inl KeyError, [''u1''])
   \<and> broken_pages ''u2'' = Inr \<lparr>link = Some ''<u3>; rel=\"next\"'', body = [3, 4]\<rparr>
   \<and> get_list_loop broken_pages ''u2'' [1, 2] [''u1''] = Some (Inr [1, 2, 3, 4], [''u1'', ''u2''])"
proof -
  have a: "no_link_page ''u1'' = Inr \<lparr>link = None, body = [7]\<rparr>"
    by (simp add: no_link_page_def)
  have b: "broken_pages ''u2'' = Inr \<lparr>link = Some ''<u3>; rel=\"next\"'', body = [3, 4]\<rparr>"
    by (simp add: broken_pages_def)
  from get_list_loop_bad_link [of no_link_page "''u1''" _ "[]" "[]", OF a]
    get_list_loop_bad_link [of broken_pages "''u2''" _ "[1, 2]" "[''u1'']", OF b]
  show ?thesis using a b by (simp add: nav_eval)
qed

section \<open>Properties of the timestamp codec\<close>

lemmas codec_eval = strptime_def split_literal_def re_Y_def re_m_def re_d_def re_H_def re_M_def re_S_def
  is_digit_def in_range_def int_of_def digit_val_def make_datetime_def days_in_month_def is_leap_def

lemma digit_cases:
  "is_digit c \<Longrightarrow> c = CHR ''0'' \<or> c = CHR ''1'' \<or> c = CHR ''2'' \<or> c = CHR ''3'' \<or> c = CHR ''4''
     \<or> c = CHR ''5'' \<or> c = CHR ''6'' \<or> c = CHR ''7'' \<or> c = CHR ''8'' \<or> c = CHR ''9''"
  by (simp add: is_digit_def)

lemma digit_val_less: "is_digit c \<Longrightarrow> digit_val c < 10"
  by (auto dest!: digit_cases simp: digit_val_def)

lemma digit_char_val: "is_digit c \<Longrightarrow> digit_char (digit_val c) = c"
  by (auto dest!: digit_cases simp: digit_val_def digit_char_def)

lemma digit_not_literal:
  "is_digit c \<Longrightarrow> c \<noteq> CHR ''-'' \<and> c \<noteq> CHR ''T'' \<and> c \<noteq> CHR ''t'' \<and> c \<noteq> CHR '':''
     \<and> c \<noteq> CHR ''Z'' \<and> c \<noteq> CHR ''z'' \<and> c \<noteq> CHR '' ''"
  by (auto dest!: digit_cases)

lemma int_of_2: "is_digit a \<Longrightarrow> int_of [a, b] = 10 * digit_val a + digit_val b"
  by (simp add: int_of_def digit_not_literal)

lemma int_of_4:
  "is_digit a \<Longrightarrow> int_of [a, b, c, d] = 1000 * digit_val a + 100 * digit_val b + 10 * digit_val c + digit_val d"
  by (simp add: int_of_def digit_not_literal)

text \<open>A digit as a regular-expression range: by its value.\<close>

lemma in_range_digit:
  "is_digit c \<Longrightarrow>
   in_range CHR ''0'' CHR ''1'' c = (digit_val c \<le> 1) \<and>
   in_range CHR ''0'' CHR ''2'' c = (digit_val c \<le> 2) \<and>
   in_range CHR ''0'' CHR ''3'' c = (digit_val c \<le> 3) \<and>
   in_range CHR ''0'' CHR ''5'' c = (digit_val c \<le> 5) \<and>
   in_range CHR ''1'' CHR ''2'' c = (1 \<le> digit_val c \<and> digit_val c \<le> 2) \<and>
   in_range CHR ''1'' CHR ''9'' c = (1 \<le> digit_val c) \<and>
   (c = CHR ''0'') = (digit_val c = 0) \<and>
   (c = CHR ''1'') = (digit_val c = 1) \<and>
   (c = CHR ''2'') = (digit_val c = 2) \<and>
   (c = CHR ''3'') = (digit_val c = 3) \<and>
   (c = CHR ''6'') = (digit_val c = 6)"
  by (drule digit_cases) (elim disjE; simp add: in_range_def digit_val_def)


lemma re_m_ok:
  assumes a: "is_digit a" and b: "is_digit b"
    and v: "1 \<le> int_of [a, b]" "int_of [a, b] \<le> 12"
  shows "re_m [a, b]"
proof -
  have "digit_val a = 1 \<and> digit_val b \<le> 2 \<or> digit_val a = 0 \<and> 1 \<le> digit_val b"
    using v digit_val_less [OF b] unfolding int_of_2 [OF a] by linarith
  then show ?thesis
    using in_range_digit [OF a] in_range_digit [OF b] by (simp add: re_m_def)
qed

lemma re_d_ok:
  assumes a: "is_digit a" and b: "is_digit b"
    and v: "1 \<le> int_of [a, b]" "int_of [a, b] \<le> 31"
  shows "re_d [a, b]"
proof -
  have "digit_val a = 3 \<and> digit_val b \<le> 1 \<or> 1 \<le> digit_val a \<and> digit_val a \<le> 2
        \<or> digit_val a = 0 \<and> 1 \<le> digit_val b"
    using v digit_val_less [OF b] unfolding int_of_2 [OF a] by linarith
  then show ?thesis
    using in_range_digit [OF a] in_range_digit [OF b] b by (auto simp: re_d_def)
qed

lemma re_H_ok:
  assumes a: "is_digit a" and b: "is_digit b" and v: "int_of [a, b] \<le> 23"
  shows "re_H [a, b]"
proof -
  have "digit_val a = 2 \<and> digit_val b \<le> 3 \<or> digit_val a \<le> 1"
    using v digit_val_less [OF b] unfolding int_of_2 [OF a] by linarith
  then show ?thesis
    using in_range_digit [OF a] in_range_digit [OF b] b by (simp add: re_H_def)
qed

lemma re_M_ok:
  assumes a: "is_digit a" and b: "is_digit b" and v: "int_of [a, b] \<le> 59"
  shows "re_M [a, b]"
proof -
  have "digit_val a \<le> 5"
    using v unfolding int_of_2 [OF a] by linarith
  then show ?thesis
    using in_range_digit [OF a] b by (simp add: re_M_def)
qed

lemma re_S_ok:
  assumes a: "is_digit a" and b: "is_digit b" and v: "int_of [a, b] \<le> 59"
  shows "re_S [a, b]"
proof -
  have "digit_val a \<le> 5"
    using v unfolding int_of_2 [OF a] by linarith
  then show ?thesis
    using in_range_digit [OF a] b by (simp add: re_S_def)
qed


lemma pad2_int_of: 
  assumes a: "is_digit a" and b: "is_digit b"
  shows "pad2 (int_of [a, b]) = [a, b]"
proof -
  have "(10 * digit_val a + digit_val b) div 10 mod 10 = digit_val a"
       "(10 * digit_val a + digit_val b) mod 10 = digit_val b"
    using digit_val_less [OF a] digit_val_less [OF b] by simp_all
  then show ?thesis using a b by (simp add: pad2_def int_of_2 digit_char_val)
qed

lemma upt_20: "[0..<20] = [0, 1, 2, 3, 4, 5, 6, 7, 8, 9, 10, 11, 12, 13, 14, 15, 16, 17, 18, 19]"
  by (simp add: upt_rec)

lemma list_of_length_20:
  assumes "length s = 20"
  shows "s = [s ! 0, s ! 1, s ! 2, s ! 3, s ! 4, s ! 5, s ! 6, s ! 7, s ! 8, s ! 9, s ! 10,
              s ! 11, s ! 12, s ! 13, s ! 14, s ! 15, s ! 16, s ! 17, s ! 18, s ! 19]"
proof -
  have "s = map ((!) s) [0..<length s]" by (simp add: map_nth)
  then have "s = map ((!) s) [0..<20]" using assms by simp
  then show ?thesis unfolding upt_20 by simp
qed


lemma split_literal_append:
  "list_all (\<lambda>c. \<not> p c) t \<Longrightarrow> p c \<Longrightarrow> split_literal p (t @ c # r) = Some (t, r)"
  by (simp add: split_literal_def list_all_iff dropWhile_append3 takeWhile_tail)

lemma split_literal_Some:
  assumes "split_literal p s = Some (t, r)"
  shows "\<exists>c. s = t @ c # r \<and> p c"
proof -
  from assms obtain c where d: "dropWhile (\<lambda>c. \<not> p c) s = c # r"
    and t: "t = takeWhile (\<lambda>c. \<not> p c) s"
    by (auto simp: split_literal_def split: list.splits)
  have "s = takeWhile (\<lambda>c. \<not> p c) s @ dropWhile (\<lambda>c. \<not> p c) s" by simp
  then have "s = t @ c # r" using d t by simp
  moreover have "p c" using hd_dropWhile [of "\<lambda>c. \<not> p c" s] d by simp
  ultimately show ?thesis by blast
qed

lemma digits_no_literal:
  assumes "list_all is_digit t"
  shows "list_all (\<lambda>c. \<not> (c = CHR ''-'')) t"
    "list_all (\<lambda>c. \<not> (c = CHR '':'')) t"
    "list_all (\<lambda>c. \<not> (c = CHR ''T'' \<or> c = CHR ''t'')) t"
    "list_all (\<lambda>c. \<not> (c = CHR ''Z'' \<or> c = CHR ''z'')) t"
  using assms by (auto simp: list_all_iff dest: digit_not_literal)

lemma strptime_tokens:
  assumes dg: "list_all is_digit Y" "list_all is_digit m" "list_all is_digit d"
    "list_all is_digit H" "list_all is_digit M" "list_all is_digit S"
    and re: "re_Y Y" "re_m m" "re_d d" "re_H H" "re_M M" "re_S S"
  shows "strptime (Y @ CHR ''-'' # m @ CHR ''-'' # d @ CHR ''T'' # H @ CHR '':'' # M @ CHR '':'' # S @ ''Z'')
         = make_datetime (int_of Y) (int_of m) (int_of d) (int_of H) (int_of M) (int_of S)"
proof -
  have 1: "\<And>r. split_literal (\<lambda>c. c = CHR ''-'') (Y @ CHR ''-'' # r) = Some (Y, r)"
    by (rule split_literal_append [OF digits_no_literal(1) [OF dg(1)]]) simp
  have 2: "\<And>r. split_literal (\<lambda>c. c = CHR ''-'') (m @ CHR ''-'' # r) = Some (m, r)"
    by (rule split_literal_append [OF digits_no_literal(1) [OF dg(2)]]) simp
  have 3: "\<And>r. split_literal (\<lambda>c. c = CHR ''T'' \<or> c = CHR ''t'') (d @ CHR ''T'' # r) = Some (d, r)"
    by (rule split_literal_append [OF digits_no_literal(3) [OF dg(3)]]) simp
  have 4: "\<And>r. split_literal (\<lambda>c. c = CHR '':'') (H @ CHR '':'' # r) = Some (H, r)"
    by (rule split_literal_append [OF digits_no_literal(2) [OF dg(4)]]) simp
  have 5: "\<And>r. split_literal (\<lambda>c. c = CHR '':'') (M @ CHR '':'' # r) = Some (M, r)"
    by (rule split_literal_append [OF digits_no_literal(2) [OF dg(5)]]) simp
  have 6: "split_literal (\<lambda>c. c = CHR ''Z'' \<or> c = CHR ''z'') (S @ ''Z'') = Some (S, [])"
    by (rule split_literal_append [OF digits_no_literal(4) [OF dg(6)]]) simp
  show ?thesis
    using re by (simp add: strptime_def 1 2 3 4 5 6)
qed

lemma days_in_month_le: "days_in_month y m \<le> 31"
  by (simp add: days_in_month_def)

lemma z_fields_tokens:
  "z_fields ([y1, y2, y3, y4] @ CHR ''-'' # [m1, m2] @ CHR ''-'' # [d1, d2] @ CHR ''T'' # [h1, h2]
           @ CHR '':'' # [i1, i2] @ CHR '':'' # [s1, s2] @ ''Z'')
   = (int_of [y1, y2, y3, y4], int_of [m1, m2], int_of [d1, d2], int_of [h1, h2], int_of [i1, i2],
      int_of [s1, s2])"
  by (simp add: z_fields_def)

lemma int_of_4_le: 
  assumes "is_digit a" "is_digit b" "is_digit c" "is_digit d"
  shows "int_of [a, b, c, d] \<le> 9999"
  using assms(1)[THEN digit_val_less] assms(2)[THEN digit_val_less] assms(3)[THEN digit_val_less]
    assms(4)[THEN digit_val_less]
  by (simp add: int_of_4 [OF assms(1)])

lemma valid_z_expand:
  assumes "valid_z s"
  shows "s = [s ! 0, s ! 1, s ! 2, s ! 3] @ CHR ''-'' # [s ! 5, s ! 6] @ CHR ''-'' # [s ! 8, s ! 9]
         @ CHR ''T'' # [s ! 11, s ! 12] @ CHR '':'' # [s ! 14, s ! 15] @ CHR '':'' # [s ! 17, s ! 18] @ ''Z''"
    and "is_digit (s ! 0)" "is_digit (s ! 1)" "is_digit (s ! 2)" "is_digit (s ! 3)"
    "is_digit (s ! 5)" "is_digit (s ! 6)" "is_digit (s ! 8)" "is_digit (s ! 9)"
    "is_digit (s ! 11)" "is_digit (s ! 12)" "is_digit (s ! 14)" "is_digit (s ! 15)"
    "is_digit (s ! 17)" "is_digit (s ! 18)"
proof -
  from assms have len: "length s = 20"
    unfolding valid_z_def by simp
  from assms have lits: "s ! 4 = CHR ''-''" "s ! 7 = CHR ''-''" "s ! 10 = CHR ''T''"
    "s ! 13 = CHR '':''" "s ! 16 = CHR '':''" "s ! 19 = CHR ''Z''"
    unfolding valid_z_def by simp_all
  from assms
  have "list_all (\<lambda>i. is_digit (s ! i)) [0, 1, 2, 3, 5, 6, 8, 9, 11, 12, 14, 15, 17, 18]"
    unfolding valid_z_def by simp
  then show "is_digit (s ! 0)" "is_digit (s ! 1)" "is_digit (s ! 2)" "is_digit (s ! 3)"
    "is_digit (s ! 5)" "is_digit (s ! 6)" "is_digit (s ! 8)" "is_digit (s ! 9)"
    "is_digit (s ! 11)" "is_digit (s ! 12)" "is_digit (s ! 14)" "is_digit (s ! 15)"
    "is_digit (s ! 17)" "is_digit (s ! 18)"
    by simp_all
  have "s = [s ! 0, s ! 1, s ! 2, s ! 3, s ! 4, s ! 5, s ! 6, s ! 7, s ! 8, s ! 9, s ! 10,
              s ! 11, s ! 12, s ! 13, s ! 14, s ! 15, s ! 16, s ! 17, s ! 18, s ! 19]"
    by (rule list_of_length_20 [OF len])
  also have "\<dots> = [s ! 0, s ! 1, s ! 2, s ! 3] @ CHR ''-'' # [s ! 5, s ! 6] @ CHR ''-'' # [s ! 8, s ! 9]
         @ CHR ''T'' # [s ! 11, s ! 12] @ CHR '':'' # [s ! 14, s ! 15] @ CHR '':'' # [s ! 17, s ! 18] @ ''Z''"
    unfolding lits by simp
  finally show "s = [s ! 0, s ! 1, s ! 2, s ! 3] @ CHR ''-'' # [s ! 5, s ! 6] @ CHR ''-'' # [s ! 8, s ! 9]
         @ CHR ''T'' # [s ! 11, s ! 12] @ CHR '':'' # [s ! 14, s ! 15] @ CHR '':'' # [s ! 17, s ! 18] @ ''Z''" .
qed

lemma str_nat_digit: "v < 10 \<Longrightarrow> str_nat v = [digit_char v]"
  by (subst str_nat.simps) simp

lemma str_nat_snoc: "1 \<le> q \<Longrightarrow> r < 10 \<Longrightarrow> str_nat (10 * q + r) = str_nat q @ [digit_char r]"
  by (subst str_nat.simps) simp

lemma digit_zero_iff: "is_digit c \<Longrightarrow> (c = CHR ''0'') = (digit_val c = 0)"
  using in_range_digit [of c] by simp

lemma str_nat_2:
  "1 \<le> x \<Longrightarrow> x < 10 \<Longrightarrow> y < 10 \<Longrightarrow> str_nat (10 * x + y) = [digit_char x, digit_char y]"
  by (subst str_nat_snoc) (simp_all add: str_nat_digit)

lemma str_nat_3:
  assumes "1 \<le> x" "x < 10" "y < 10" "z < 10"
  shows "str_nat (10 * (10 * x + y) + z) = [digit_char x, digit_char y, digit_char z]"
proof -
  have "1 \<le> 10 * x + y" using assms(1) by simp
  from str_nat_snoc [OF this assms(4)] show ?thesis
    unfolding str_nat_2 [OF assms(1-3)] by simp
qed

lemma str_nat_4:
  assumes "1 \<le> x" "x < 10" "y < 10" "z < 10" "w < 10"
  shows "str_nat (10 * (10 * (10 * x + y) + z) + w)
         = [digit_char x, digit_char y, digit_char z, digit_char w]"
proof -
  have "1 \<le> 10 * (10 * x + y) + z" using assms(1) by simp
  from str_nat_snoc [OF this assms(5)] show ?thesis
    unfolding str_nat_3 [OF assms(1-4)] by simp
qed

text \<open>The decimal number of a token of four digits is the token without its leading zeros.\<close>

lemma str_nat_int_of:
  assumes a: "is_digit a" and b: "is_digit b" and c: "is_digit c" and d: "is_digit d"
    and pos: "1 \<le> int_of [a, b, c, d]"
  shows "str_nat (int_of [a, b, c, d]) = dropWhile (\<lambda>x. x = CHR ''0'') [a, b, c, d]"
proof -
  define va vb vc vd where "va = digit_val a" and "vb = digit_val b" and "vc = digit_val c"
    and "vd = digit_val d"
  note vs = va_def vb_def vc_def vd_def
  have lt: "va < 10" "vb < 10" "vc < 10" "vd < 10"
    unfolding vs using a b c d by (simp_all add: digit_val_less)
  have ch: "digit_char va = a" "digit_char vb = b" "digit_char vc = c" "digit_char vd = d"
    unfolding vs using a b c d by (simp_all add: digit_char_val)
  have z: "(a = CHR ''0'') = (va = 0)" "(b = CHR ''0'') = (vb = 0)" "(c = CHR ''0'') = (vc = 0)"
    "(d = CHR ''0'') = (vd = 0)"
    unfolding vs using a b c d by (simp_all add: digit_zero_iff)
  have n: "int_of [a, b, c, d] = 10 * (10 * (10 * va + vb) + vc) + vd"
    unfolding vs by (simp add: int_of_4 [OF a])
  show ?thesis
  proof (cases "va = 0")
    case False
    then have "str_nat (int_of [a, b, c, d]) = [a, b, c, d]"
      unfolding n using lt str_nat_4 [of va vb vc vd] by (simp add: ch)
    with False show ?thesis by (simp add: z)
  next
    case a0: True
    show ?thesis
    proof (cases "vb = 0")
      case False
      have "int_of [a, b, c, d] = 10 * (10 * vb + vc) + vd" unfolding n a0 by simp
      with False have "str_nat (int_of [a, b, c, d]) = [b, c, d]"
        using lt str_nat_3 [of vb vc vd] by (simp add: ch)
      with False a0 show ?thesis by (simp add: z)
    next
      case b0: True
      show ?thesis
      proof (cases "vc = 0")
        case False
        have "int_of [a, b, c, d] = 10 * vc + vd" unfolding n a0 b0 by simp
        with False have "str_nat (int_of [a, b, c, d]) = [c, d]"
          using lt str_nat_2 [of vc vd] by (simp add: ch)
        with False a0 b0 show ?thesis by (simp add: z)
      next
        case c0: True
        have e: "int_of [a, b, c, d] = vd" unfolding n a0 b0 c0 by simp
        with pos have "vd \<noteq> 0" by simp
        moreover have "str_nat (int_of [a, b, c, d]) = [d]"
          unfolding e using lt by (simp add: str_nat_digit ch)
        ultimately show ?thesis using a0 b0 c0 by (simp add: z)
      qed
    qed
  qed
qed

lemma no_leading_zero:
  assumes a: "is_digit a" and b: "is_digit b" and c: "is_digit c" and d: "is_digit d"
    and big: "1000 \<le> int_of [a, b, c, d]"
  shows "dropWhile (\<lambda>x. x = CHR ''0'') [a, b, c, d] = [a, b, c, d]"
proof -
  have "digit_val a \<noteq> 0"
    using big digit_val_less [OF b] digit_val_less [OF c] digit_val_less [OF d]
    unfolding int_of_4 [OF a] by linarith
  then have "a \<noteq> CHR ''0''" using a by (simp add: digit_zero_iff)
  then show ?thesis by simp
qed

lemma dt_to_z_tokens:
  assumes "is_digit y1" "is_digit y2" "is_digit y3" "is_digit y4" "is_digit m1" "is_digit m2"
    "is_digit d1" "is_digit d2" "is_digit h1" "is_digit h2" "is_digit i1" "is_digit i2"
    "is_digit s1" "is_digit s2" and "1 \<le> int_of [y1, y2, y3, y4]"
  shows "dt_to_z (Some (int_of [y1, y2, y3, y4], int_of [m1, m2], int_of [d1, d2], int_of [h1, h2],
           int_of [i1, i2], int_of [s1, s2]))
     = Some (dropWhile (\<lambda>x. x = CHR ''0'') [y1, y2, y3, y4] @ CHR ''-'' # [m1, m2] @ CHR ''-''
           # [d1, d2] @ CHR ''T'' # [h1, h2] @ CHR '':'' # [i1, i2] @ CHR '':'' # [s1, s2] @ ''Z'')"
  using assms by (simp only: dt_to_z.simps pad2_int_of str_nat_int_of) simp

lemma take_drop_tokens:
  "take 4 ([y1, y2, y3, y4] @ r) = [y1, y2, y3, y4]" "drop 4 ([y1, y2, y3, y4] @ r) = r"
  by simp_all

lemma dt_to_z_fields:
  assumes "valid_z s"
  shows "dt_to_z (Some (z_fields s)) = Some (dropWhile (\<lambda>x. x = CHR ''0'') (take 4 s) @ drop 4 s)"
    and "1000 \<le> fst (z_fields s) \<Longrightarrow> dt_to_z (Some (z_fields s)) = Some s"
proof -
  note e = valid_z_expand [OF assms]
  define Y where "Y = [s ! 0, s ! 1, s ! 2, s ! 3]"
  define R where "R = CHR ''-'' # [s ! 5, s ! 6] @ CHR ''-'' # [s ! 8, s ! 9]
         @ CHR ''T'' # [s ! 11, s ! 12] @ CHR '':'' # [s ! 14, s ! 15] @ CHR '':'' # [s ! 17, s ! 18] @ ''Z''"
  have sYR: "s = Y @ R" unfolding Y_def R_def by (rule e(1))
  have f: "z_fields s = (int_of Y, int_of [s ! 5, s ! 6], int_of [s ! 8, s ! 9],
      int_of [s ! 11, s ! 12], int_of [s ! 14, s ! 15], int_of [s ! 17, s ! 18])"
    unfolding Y_def by (subst e(1)) (rule z_fields_tokens)
  from assms have "case z_fields s of (y, mo, d, h, mi, se) \<Rightarrow>
            1 \<le> y \<and> 1 \<le> mo \<and> mo \<le> 12 \<and> 1 \<le> d \<and> d \<le> days_in_month y mo
            \<and> h \<le> 23 \<and> mi \<le> 59 \<and> se \<le> 59"
    unfolding valid_z_def by simp
  then have y1: "1 \<le> int_of Y" unfolding f by simp
  have td: "take 4 s = Y" "drop 4 s = R"
    by (subst sYR, simp add: Y_def)+
  have g: "dt_to_z (Some (z_fields s)) = Some (dropWhile (\<lambda>x. x = CHR ''0'') Y @ R)"
    unfolding f using dt_to_z_tokens [OF e(2-15) y1 [unfolded Y_def]]
    unfolding Y_def R_def by simp
  show "dt_to_z (Some (z_fields s)) = Some (dropWhile (\<lambda>x. x = CHR ''0'') (take 4 s) @ drop 4 s)"
    unfolding td by (rule g)
  show "dt_to_z (Some (z_fields s)) = Some s" if "1000 \<le> fst (z_fields s)"
  proof -
    from that have "1000 \<le> int_of Y" unfolding f by simp
    then have "dropWhile (\<lambda>x. x = CHR ''0'') Y = Y"
      unfolding Y_def by (rule no_leading_zero [OF e(2-5)])
    with g show ?thesis unfolding sYR by simp
  qed
qed

lemma strptime_valid:
  assumes "valid_z s"
  shows "strptime s = Inr (z_fields s)"
proof -
  note e = valid_z_expand [OF assms]
  define y mo d h mi se where "y = int_of [s ! 0, s ! 1, s ! 2, s ! 3]"
    and "mo = int_of [s ! 5, s ! 6]" and "d = int_of [s ! 8, s ! 9]"
    and "h = int_of [s ! 11, s ! 12]" and "mi = int_of [s ! 14, s ! 15]"
    and "se = int_of [s ! 17, s ! 18]"
  note defs = y_def mo_def d_def h_def mi_def se_def
  have f: "z_fields s = (y, mo, d, h, mi, se)"
    unfolding defs by (subst e(1)) (rule z_fields_tokens)
  from assms have "case z_fields s of (y, mo, d, h, mi, se) \<Rightarrow>
            1 \<le> y \<and> 1 \<le> mo \<and> mo \<le> 12 \<and> 1 \<le> d \<and> d \<le> days_in_month y mo
            \<and> h \<le> 23 \<and> mi \<le> 59 \<and> se \<le> 59"
    unfolding valid_z_def by simp
  then have rng: "1 \<le> y" "1 \<le> mo" "mo \<le> 12" "1 \<le> d" "d \<le> days_in_month y mo"
    "h \<le> 23" "mi \<le> 59" "se \<le> 59"
    unfolding f by simp_all
  have y_le: "y \<le> 9999" unfolding y_def by (rule int_of_4_le [OF e(2-5)])
  have d31: "d \<le> 31" using rng(5) days_in_month_le [of y mo] by linarith
  have re: "re_Y [s ! 0, s ! 1, s ! 2, s ! 3]"
    using e(2-5) by (simp add: re_Y_def)
  have rm: "re_m [s ! 5, s ! 6]"
    using rng(2,3) unfolding defs by (rule re_m_ok [OF e(6,7)])
  have rd: "re_d [s ! 8, s ! 9]"
    using rng(4) d31 unfolding defs by (rule re_d_ok [OF e(8,9)])
  have rh: "re_H [s ! 11, s ! 12]"
    using rng(6) unfolding defs by (rule re_H_ok [OF e(10,11)])
  have rmi: "re_M [s ! 14, s ! 15]"
    using rng(7) unfolding defs by (rule re_M_ok [OF e(12,13)])
  have rs: "re_S [s ! 17, s ! 18]"
    using rng(8) unfolding defs by (rule re_S_ok [OF e(14,15)])
  have "strptime s = make_datetime y mo d h mi se"
    unfolding defs using e(2-15) re rm rd rh rmi rs
    by (subst e(1), intro strptime_tokens) simp_all
  also have "\<dots> = Inr (y, mo, d, h, mi, se)"
    using rng y_le by (simp add: make_datetime_def)
  finally show ?thesis by (simp add: f)
qed

lemma strptime_accepts:
  assumes "strptime z = Inr dt"
  shows "\<exists>Y m d t H M S u.
           z = Y @ CHR ''-'' # m @ CHR ''-'' # d @ t # H @ CHR '':'' # M @ CHR '':'' # S @ [u]
           \<and> (t = CHR ''T'' \<or> t = CHR ''t'') \<and> (u = CHR ''Z'' \<or> u = CHR ''z'')
           \<and> re_Y Y \<and> re_m m \<and> re_d d \<and> re_H H \<and> re_M M \<and> re_S S
           \<and> make_datetime (int_of Y) (int_of m) (int_of d) (int_of H) (int_of M) (int_of S) = Inr dt"
proof -
  from assms obtain Y r1 where 1: "split_literal (\<lambda>c. c = CHR ''-'') z = Some (Y, r1)"
    by (auto simp: strptime_def split: option.splits)
  from assms 1 obtain m r2 where 2: "split_literal (\<lambda>c. c = CHR ''-'') r1 = Some (m, r2)"
    by (auto simp: strptime_def split: option.splits)
  from assms 1 2 obtain d r3 where
    3: "split_literal (\<lambda>c. c = CHR ''T'' \<or> c = CHR ''t'') r2 = Some (d, r3)"
    by (auto simp: strptime_def split: option.splits)
  from assms 1 2 3 obtain H r4 where 4: "split_literal (\<lambda>c. c = CHR '':'') r3 = Some (H, r4)"
    by (auto simp: strptime_def split: option.splits)
  from assms 1 2 3 4 obtain M r5 where 5: "split_literal (\<lambda>c. c = CHR '':'') r4 = Some (M, r5)"
    by (auto simp: strptime_def split: option.splits)
  from assms 1 2 3 4 5 obtain S r6 where
    6: "split_literal (\<lambda>c. c = CHR ''Z'' \<or> c = CHR ''z'') r5 = Some (S, r6)"
    by (auto simp: strptime_def split: option.splits)
  from assms have c: "r6 = [] \<and> re_Y Y \<and> re_m m \<and> re_d d \<and> re_H H \<and> re_M M \<and> re_S S
      \<and> make_datetime (int_of Y) (int_of m) (int_of d) (int_of H) (int_of M) (int_of S) = Inr dt"
    by (simp add: strptime_def 1 2 3 4 5 6 split: if_splits)
  from split_literal_Some [OF 1] have z: "z = Y @ CHR ''-'' # r1" by simp
  from split_literal_Some [OF 2] have r1: "r1 = m @ CHR ''-'' # r2" by simp
  from split_literal_Some [OF 3] obtain t where r2: "r2 = d @ t # r3"
    and t: "t = CHR ''T'' \<or> t = CHR ''t''" by blast
  from split_literal_Some [OF 4] have r3: "r3 = H @ CHR '':'' # r4" by simp
  from split_literal_Some [OF 5] have r4: "r4 = M @ CHR '':'' # r5" by simp
  from split_literal_Some [OF 6] c obtain u where r5: "r5 = S @ [u]"
    and u: "u = CHR ''Z'' \<or> u = CHR ''z''" by blast
  have "z = Y @ CHR ''-'' # m @ CHR ''-'' # d @ t # H @ CHR '':'' # M @ CHR '':'' # S @ [u]"
    unfolding z r1 r2 r3 r4 r5 ..
  with t u c show ?thesis by blast
qed

lemma strptime_error: "strptime z = Inl e \<Longrightarrow> e = ValueError"
  by (auto simp: strptime_def make_datetime_def split: option.splits if_splits)

lemma z_to_dt_valid: "valid_z s \<Longrightarrow> z_to_dt (Some s) = Inr (Some (z_fields s))"
  by (simp add: strptime_valid)

text \<open>
  C7 fails as stated, twice: the empty string is not mapped to \<open>None\<close> but raises
  \<open>ValueError\<close> (only \<open>None\<close> is tested before \<open>strptime\<close>), and some strings that are not of
  the fixed shape are parsed: fields without padding and the literals in lower case.
\<close>

theorem z_to_dt_empty_and_loose_shapes:
  "z_to_dt (Some '''') = Inl ValueError
   \<and> \<not> valid_z ''2024-2-1t3:4:5z''
   \<and> z_to_dt (Some ''2024-2-1t3:4:5z'') = Inr (Some (2024, 2, 1, 3, 4, 5))"
  by (simp add: codec_eval valid_z_def)

text \<open>
  C7, amended. \<open>z_to_dt\<close> maps \<open>None\<close> to \<open>None\<close>; on the empty string it raises
  \<open>ValueError\<close>; a valid \<open>YYYY-MM-DDTHH:MM:SSZ\<close> string is parsed to the instant its fields
  name; a string is parsed only if it consists of six tokens matched by the groups of
  the directives, separated by \<open>-\<close>, \<open>-\<close>, \<open>T\<close> or \<open>t\<close>, \<open>:\<close>, \<open>:\<close> and ended by \<open>Z\<close> or \<open>z\<close>, that
  name an instant of the calendar; on every other string it raises \<open>ValueError\<close> and
  nothing else.
\<close>

theorem z_to_dt_cases:
  "z_to_dt None = Inr None
   \<and> z_to_dt (Some '''') = Inl ValueError
   \<and> (valid_z s \<longrightarrow> z_to_dt (Some s) = Inr (Some (z_fields s)))
   \<and> (\<forall>r. z_to_dt (Some s) = Inr r \<longrightarrow>
         (\<exists>Y m d t H M S u.
            s = Y @ CHR ''-'' # m @ CHR ''-'' # d @ t # H @ CHR '':'' # M @ CHR '':'' # S @ [u]
            \<and> (t = CHR ''T'' \<or> t = CHR ''t'') \<and> (u = CHR ''Z'' \<or> u = CHR ''z'')
            \<and> re_Y Y \<and> re_m m \<and> re_d d \<and> re_H H \<and> re_M M \<and> re_S S
            \<and> (\<exists>dt. make_datetime (int_of Y) (int_of m) (int_of d) (int_of H) (int_of M) (int_of S)
                       = Inr dt \<and> r = Some dt)))
   \<and> (\<forall>e. z_to_dt (Some s) = Inl e \<longrightarrow> e = ValueError)"
proof (intro conjI allI impI)
  show "z_to_dt None = Inr None" by simp
  show "z_to_dt (Some '''') = Inl ValueError" by (simp add: strptime_def split_literal_def)
  show "z_to_dt (Some s) = Inr (Some (z_fields s))" if "valid_z s"
    using that by (rule z_to_dt_valid)
next
  fix r
  assume "z_to_dt (Some s) = Inr r"
  then obtain dt where dt: "strptime s = Inr dt" and r: "r = Some dt"
    by (auto split: sum.splits)
  from strptime_accepts [OF dt] r
  show "\<exists>Y m d t H M S u.
            s = Y @ CHR ''-'' # m @ CHR ''-'' # d @ t # H @ CHR '':'' # M @ CHR '':'' # S @ [u]
            \<and> (t = CHR ''T'' \<or> t = CHR ''t'') \<and> (u = CHR ''Z'' \<or> u = CHR ''z'')
            \<and> re_Y Y \<and> re_m m \<and> re_d d \<and> re_H H \<and> re_M M \<and> re_S S
            \<and> (\<exists>dt. make_datetime (int_of Y) (int_of m) (int_of d) (int_of H) (int_of M) (int_of S)
                       = Inr dt \<and> r = Some dt)"
    by blast
next
  fix e
  assume "z_to_dt (Some s) = Inl e"
  then have "strptime s = Inl e" by (auto split: sum.splits)
  then show "e = ValueError" by (rule strptime_error)
qed

theorem z_to_dt_cases_witness:
  "valid_z ''2024-02-01T23:59:00Z''
   \<and> z_to_dt (Some ''2024-02-01T23:59:00Z'') = Inr (Some (2024, 2, 1, 23, 59, 0))
   \<and> (\<exists>Y m d t H M S u.
        ''2024-02-01T23:59:00Z'' = Y @ CHR ''-'' # m @ CHR ''-'' # d @ t # H @ CHR '':'' # M @ CHR '':'' # S @ [u]
        \<and> re_Y Y \<and> re_m m \<and> re_d d \<and> re_H H \<and> re_M M \<and> re_S S)
   \<and> z_to_dt (Some ''2024-13-01T00:00:00Z'') = Inl ValueError"
proof -
  have v: "valid_z ''2024-02-01T23:59:00Z''"
    by (simp add: valid_z_def z_fields_def codec_eval)
  have f: "z_fields ''2024-02-01T23:59:00Z'' = (2024, 2, 1, 23, 59, 0)"
    by (simp add: z_fields_def int_of_def digit_val_def)
  have e: "\<exists>e. z_to_dt (Some ''2024-13-01T00:00:00Z'') = Inl e"
    by (simp add: codec_eval)
  note a = z_to_dt_cases [of "''2024-02-01T23:59:00Z''"]
  note b = z_to_dt_cases [of "''2024-13-01T00:00:00Z''"]
  from a v have p: "z_to_dt (Some ''2024-02-01T23:59:00Z'') = Inr (Some (2024, 2, 1, 23, 59, 0))"
    unfolding f by blast
  from a p have "\<exists>Y m d t H M S u.
        ''2024-02-01T23:59:00Z'' = Y @ CHR ''-'' # m @ CHR ''-'' # d @ t # H @ CHR '':'' # M @ CHR '':'' # S @ [u]
        \<and> re_Y Y \<and> re_m m \<and> re_d d \<and> re_H H \<and> re_M M \<and> re_S S"
    by blast
  moreover from b e have "z_to_dt (Some ''2024-13-01T00:00:00Z'') = Inl ValueError"
    by blast
  ultimately show ?thesis using v p by blast
qed

text \<open>
  C8 fails as stated: \<^verbatim>\<open>0999-01-01T00:00:00Z\<close> is a valid timestamp, and \<open>dt_to_z\<close> formats the
  instant it parses to as \<^verbatim>\<open>999-01-01T00:00:00Z\<close>, since \<^verbatim>\<open>%Y\<close> prints the year without
  leading zeros.
\<close>

theorem dt_to_z_drops_leading_zeros:
  "valid_z ''0999-01-01T00:00:00Z''
   \<and> z_to_dt (Some ''0999-01-01T00:00:00Z'') = Inr (Some (999, 1, 1, 0, 0, 0))
   \<and> dt_to_z (Some (999, 1, 1, 0, 0, 0)) = Some ''999-01-01T00:00:00Z''
   \<and> ''999-01-01T00:00:00Z'' \<noteq> ''0999-01-01T00:00:00Z''"
  by (simp add: valid_z_def z_fields_def codec_eval pad2_def digit_char_def str_nat.simps)

text \<open>
  C8, amended. For every valid \<open>YYYY-MM-DDTHH:MM:SSZ\<close> string \<open>s\<close>, \<open>z_to_dt\<close> returns a value
  that \<open>dt_to_z\<close> formats to \<open>s\<close> without the leading zeros of its year; so when the year
  is at least 1000 the result is \<open>s\<close> itself. And \<open>z_to_dt None\<close> is \<open>None\<close>.
\<close>

theorem dt_to_z_z_to_dt:
  "(valid_z s \<longrightarrow>
      (\<exists>dto. z_to_dt (Some s) = Inr dto
         \<and> dt_to_z dto = Some (dropWhile (\<lambda>c. c = CHR ''0'') (take 4 s) @ drop 4 s)
         \<and> (1000 \<le> fst (z_fields s) \<longrightarrow> dt_to_z dto = Some s)))
   \<and> z_to_dt None = Inr None"
proof (intro conjI impI)
  assume v: "valid_z s"
  from z_to_dt_valid [OF v] dt_to_z_fields [OF v]
  show "\<exists>dto. z_to_dt (Some s) = Inr dto
         \<and> dt_to_z dto = Some (dropWhile (\<lambda>c. c = CHR ''0'') (take 4 s) @ drop 4 s)
         \<and> (1000 \<le> fst (z_fields s) \<longrightarrow> dt_to_z dto = Some s)"
    by blast
next
  show "z_to_dt None = Inr None" by simp
qed

theorem dt_to_z_z_to_dt_witness:
  "valid_z ''2024-03-01T08:05:09Z''
   \<and> 1000 \<le> fst (z_fields ''2024-03-01T08:05:09Z'')
   \<and> (\<exists>dto. z_to_dt (Some ''2024-03-01T08:05:09Z'') = Inr dto
         \<and> dt_to_z dto = Some ''2024-03-01T08:05:09Z'')
   \<and> valid_z ''0012-03-01T08:05:09Z''
   \<and> (\<exists>dto. z_to_dt (Some ''0012-03-01T08:05:09Z'') = Inr dto
         \<and> dt_to_z dto = Some ''12-03-01T08:05:09Z'')"
proof -
  have v: "valid_z ''2024-03-01T08:05:09Z''" "valid_z ''0012-03-01T08:05:09Z''"
    by (simp_all add: valid_z_def z_fields_def codec_eval)
  have y: "1000 \<le> fst (z_fields ''2024-03-01T08:05:09Z'')"
    by (simp add: z_fields_def int_of_def digit_val_def)
  have d: "dropWhile (\<lambda>c. c = CHR ''0'') (take 4 ''0012-03-01T08:05:09Z'') @ drop 4 ''0012-03-01T08:05:09Z''
           = ''12-03-01T08:05:09Z''"
    by simp
  from dt_to_z_z_to_dt [of "''2024-03-01T08:05:09Z''"] v(1) y
  have 1: "\<exists>dto. z_to_dt (Some ''2024-03-01T08:05:09Z'') = Inr dto
         \<and> dt_to_z dto = Some ''2024-03-01T08:05:09Z''"
    by blast
  from dt_to_z_z_to_dt [of "''0012-03-01T08:05:09Z''"] v(2)
  have 2: "\<exists>dto. z_to_dt (Some ''0012-03-01T08:05:09Z'') = Inr dto
         \<and> dt_to_z dto = Some ''12-03-01T08:05:09Z''"
    unfolding d by blast
  from v y 1 2 show ?thesis by blast
qed

section \<open>Properties of the aggregator\<close>

lemma ex_dates:
  "z_to_dt (Some ''2024-01-10T00:00:00Z'') = Inr (Some (2024, 1, 10, 0, 0, 0))"
  "z_to_dt (Some ''2024-02-01T00:00:00Z'') = Inr (Some (2024, 2, 1, 0, 0, 0))"
  "z_to_dt (Some ''2024-01-09T10:00:00Z'') = Inr (Some (2024, 1, 9, 10, 0, 0))"
  "z_to_dt (Some ''2024-01-30T12:00:00Z'') = Inr (Some (2024, 1, 30, 12, 0, 0))"
  "z_to_dt (Some ''2024-03-01T00:00:00Z'') = Inr (Some (2024, 3, 1, 0, 0, 0))"
  by (simp_all add: codec_eval)

lemma ex_order_and_seed:
  "order_and_seed ex_assignments = Inr ([1, 2, 3], Some (2024, 1, 10, 0, 0, 0))"
  unfolding order_and_seed_def ex_assignments_def
  by (simp del: z_to_dt.simps add: ex_dates z_to_dt.simps(1) due_date_buckets_def somes_def assignments_by_due_date_def
        first_due_date_def dict_get_def)

text \<open>
  C1 on \<^verbatim>\<open>last_nonzero_score.py\<close>: a submission with a score above zero on a dated
  assignment, by a student who is not among the active students, is not ignored. The
  walk reads \<^verbatim>\<open>last_non_zero_score[student]\<close> for it and the script ends in a \<open>KeyError\<close>.
  \<^verbatim>\<open>last_participation.py\<close> has the test that skips it.
\<close>

theorem dropped_student_key_error:
  "last_non_zero_score_ns ex_assignments dropped_submissions ex_students = Inl KeyError"
  unfolding last_non_zero_score_ns_def ex_order_and_seed
  by (simp del: z_to_dt.simps add: ex_dates z_to_dt.simps(1) walk_def dict_get_def nonzero_step_ns_def
        dropped_submissions_def ex_assignments_def ex_students_def seed_def)

lemma dropped_student_ignored_lp:
  "case last_non_zero_score_lp ex_assignments dropped_submissions ex_students of
     Inl e \<Rightarrow> False | Inr m \<Rightarrow> m 7 = Some (Some (2024, 1, 10, 0, 0, 0)) \<and> m 99 = None"
  unfolding last_non_zero_score_lp_def ex_order_and_seed
  by (simp del: z_to_dt.simps add: ex_dates z_to_dt.simps(1) walk_def dict_get_def nonzero_step_lp_def
        dropped_submissions_def ex_assignments_def ex_students_def seed_def)

lemma parse_all_None:
  "list_all (\<lambda>z. z = None) zs \<Longrightarrow> parse_all zs = Inr (replicate (length zs) None)"
  by (induction zs) auto

lemma buckets_undated: "due_date_buckets (replicate n None) = [None]"
  by (induction n) (auto simp: due_date_buckets_def somes_def)

lemma order_undated:
  assumes "list_all (\<lambda>(a, r). due_at r = None) assignments"
  shows "assignments_by_due_date assignments [None] = map fst assignments"
proof -
  from assms have "filter (\<lambda>(a, r). z_to_dt (due_at r) = Inr None) assignments = assignments"
    by (induction assignments) auto
  then show ?thesis by (simp add: assignments_by_due_date_def)
qed

lemma order_and_seed_empty: "order_and_seed [] = Inl IndexError"
  by (simp add: order_and_seed_def due_date_buckets_def somes_def assignments_by_due_date_def first_due_date_def)

lemma order_and_seed_undated:
  assumes ne: "assignments \<noteq> []" and und: "list_all (\<lambda>(a, r). due_at r = None) assignments"
  shows "order_and_seed assignments = Inr (map fst assignments, None)"
proof -
  from und have z: "list_all (\<lambda>z. z = None) (map (\<lambda>(a, r). due_at r) assignments)"
    by (induction assignments) auto
  have p: "parse_all (map (\<lambda>(a, r). due_at r) assignments)
             = Inr (replicate (length assignments) None)"
    using parse_all_None [OF z] by simp
  note b = buckets_undated [of "length assignments"]
  from ne obtain a r rest where asg: "assignments = (a, r) # rest"
    by (cases assignments) auto
  with und have "due_at r = None" by simp
  then have f: "first_due_date assignments (map fst assignments) = Inr None"
    by (simp add: first_due_date_def asg dict_get_def)
  show ?thesis
    by (simp add: order_and_seed_def p b order_undated [OF und] f)
qed

lemma for_each_skip:
  "(\<And>x. x \<in> set xs \<Longrightarrow> step s x = Inr s) \<Longrightarrow> for_each step xs s = Inr s"
  by (induction xs) auto

lemma map_of_fst_in:
  "a \<in> set (map fst d) \<Longrightarrow> \<exists>v. map_of d a = Some v \<and> (a, v) \<in> set d"
  by (induction d) auto

lemma walk_undated_lp:
  assumes und: "list_all (\<lambda>(a, r). due_at r = None) assignments"
    and keys: "map fst all_submissions = map fst assignments"
  shows "walk (nonzero_step_lp assignments students) all_submissions (map fst assignments) m = Inr m"
  unfolding walk_def
proof (rule for_each_skip)
  fix a assume a: "a \<in> set (map fst assignments)"
  from map_of_fst_in [OF a] obtain r where r: "map_of assignments a = Some r" "(a, r) \<in> set assignments"
    by blast
  with und have d: "due_at r = None" by (auto simp: list_all_iff)
  from a keys have "a \<in> set (map fst all_submissions)" by simp
  from map_of_fst_in [OF this] obtain subs where s: "map_of all_submissions a = Some subs" by blast
  have "for_each (nonzero_step_lp assignments students a) subs m = Inr m"
    by (rule for_each_skip) (simp add: nonzero_step_lp_def dict_get_def r d split: json.splits)
  then show "(case dict_get all_submissions a of Inl e \<Rightarrow> Inl e
         | Inr submissions \<Rightarrow> for_each (nonzero_step_lp assignments students a) submissions m) = Inr m"
    by (simp add: dict_get_def s)
qed

lemma walk_undated_ns:
  assumes und: "list_all (\<lambda>(a, r). due_at r = None) assignments"
    and keys: "map fst all_submissions = map fst assignments"
  shows "walk (nonzero_step_ns assignments) all_submissions (map fst assignments) m = Inr m"
  unfolding walk_def
proof (rule for_each_skip)
  fix a assume a: "a \<in> set (map fst assignments)"
  from map_of_fst_in [OF a] obtain r where r: "map_of assignments a = Some r" "(a, r) \<in> set assignments"
    by blast
  with und have d: "due_at r = None" by (auto simp: list_all_iff)
  from a keys have "a \<in> set (map fst all_submissions)" by simp
  from map_of_fst_in [OF this] obtain subs where s: "map_of all_submissions a = Some subs" by blast
  have "for_each (nonzero_step_ns assignments a) subs m = Inr m"
    by (rule for_each_skip) (simp add: nonzero_step_ns_def dict_get_def r d split: json.splits)
  then show "(case dict_get all_submissions a of Inl e \<Rightarrow> Inl e
         | Inr submissions \<Rightarrow> for_each (nonzero_step_ns assignments a) submissions m) = Inr m"
    by (simp add: dict_get_def s)
qed

text \<open>
  C9 fails as stated: a course whose only assignment has no due date has a non-empty
  ordering (the undated bucket holds the assignment); the seed is \<open>None\<close>, nothing is
  indexed out of range, and both scripts finish with \<open>None\<close> for the student.
\<close>

theorem undated_course_seed_is_None:
  "order_and_seed [(1, \<lparr>due_at = None\<rparr>)] = Inr ([1], None)
   \<and> (case last_non_zero_score_lp [(1, \<lparr>due_at = None\<rparr>)] [(1, [])] [7] of
         Inl e \<Rightarrow> False | Inr m \<Rightarrow> m 7 = Some None)
   \<and> (case last_non_zero_score_ns [(1, \<lparr>due_at = None\<rparr>)] [(1, [])] [7] of
         Inl e \<Rightarrow> False | Inr m \<Rightarrow> m 7 = Some None)"
proof -
  have o: "order_and_seed [(1, \<lparr>due_at = None\<rparr>)] = Inr ([1], None)"
    by (simp add: order_and_seed_def due_date_buckets_def somes_def assignments_by_due_date_def
          first_due_date_def dict_get_def)
  show ?thesis
    unfolding last_non_zero_score_lp_def last_non_zero_score_ns_def o
    by (simp add: walk_def dict_get_def seed_def)
qed

text \<open>
  C9, amended. The seed step fails by indexing into an empty ordering for a course
  without assignments, in both scripts. For a course that has assignments, none
  of them with a due date, the ordering lists all the assignments, the seed is \<open>None\<close>,
  and both scripts finish with \<open>None\<close> for every active student.
\<close>

theorem seed_of_undated_course:
  "order_and_seed [] = Inl IndexError
   \<and> last_non_zero_score_lp [] all_submissions students = Inl IndexError
   \<and> last_non_zero_score_ns [] all_submissions students = Inl IndexError
   \<and> (assignments \<noteq> [] \<and> list_all (\<lambda>(a, r). due_at r = None) assignments \<longrightarrow>
        order_and_seed assignments = Inr (map fst assignments, None)
        \<and> (map fst all_submissions = map fst assignments \<longrightarrow>
             last_non_zero_score_lp assignments all_submissions students = Inr (seed students None)
             \<and> last_non_zero_score_ns assignments all_submissions students = Inr (seed students None)))"
  by (simp add: order_and_seed_empty last_non_zero_score_lp_def last_non_zero_score_ns_def
        order_and_seed_undated walk_undated_lp walk_undated_ns)

theorem seed_of_undated_course_witness:
  "[(3, \<lparr>due_at = None\<rparr>), (4, \<lparr>due_at = None\<rparr>)] \<noteq> []
   \<and> list_all (\<lambda>(a, r). due_at r = None) [(3, \<lparr>due_at = None\<rparr>), (4, \<lparr>due_at = None\<rparr>)]
   \<and> order_and_seed [(3, \<lparr>due_at = None\<rparr>), (4, \<lparr>due_at = None\<rparr>)] = Inr ([3, 4], None)
   \<and> last_non_zero_score_lp [(3, \<lparr>due_at = None\<rparr>), (4, \<lparr>due_at = None\<rparr>)]
        [(3, [\<lparr>user_id = 7, score = JFloat (Finite 2), submitted_at = None\<rparr>]), (4, [])] [7]
      = Inr (seed [7] None)"
  using seed_of_undated_course [of "[(3, [\<lparr>user_id = 7, score = JFloat (Finite 2), submitted_at = None\<rparr>]), (4, [])]"
      "[7]" "[(3, \<lparr>due_at = None\<rparr>), (4, \<lparr>due_at = None\<rparr>)]"]
  by simp

lemma no_earlier_refl: "no_earlier v v"
  by (simp add: no_earlier_def)

lemma no_earlier_trans: "no_earlier u v \<Longrightarrow> no_earlier v w \<Longrightarrow> no_earlier u w"
  by (auto simp: no_earlier_def split: option.splits)

lemma nonzero_step_lp_no_earlier:
  "nonzero_step_lp assignments students a m sub = Inr m' \<Longrightarrow> no_earlier (m s) (m' s)"
  by (auto simp: nonzero_step_lp_def no_earlier_def
      split: json.splits sum.splits option.splits if_splits)

lemma for_each_no_earlier:
  assumes "\<And>m m' x. x \<in> set xs \<Longrightarrow> step m x = Inr m' \<Longrightarrow> no_earlier (m s) (m' s)"
    and "for_each step xs m = Inr m'"
  shows "no_earlier (m s) (m' s)"
  using assms
proof (induction xs arbitrary: m)
  case Nil
  then show ?case by (simp add: no_earlier_refl)
next
  case (Cons x xs)
  from Cons.prems(2) obtain m1 where 1: "step m x = Inr m1" and 2: "for_each step xs m1 = Inr m'"
    by (auto split: sum.splits)
  have "no_earlier (m s) (m1 s)" using Cons.prems(1) [of x m m1] 1 by simp
  moreover have "no_earlier (m1 s) (m' s)"
  proof (rule Cons.IH [OF _ 2])
    fix ma mb y
    assume "y \<in> set xs" "step ma y = Inr mb"
    then show "no_earlier (ma s) (mb s)" using Cons.prems(1) [of y ma mb] by simp
  qed
  ultimately show ?case by (rule no_earlier_trans)
qed

lemma walk_lp_no_earlier:
  assumes "walk (nonzero_step_lp assignments students) all_submissions ordered m = Inr m'"
  shows "no_earlier (m s) (m' s)"
proof (rule for_each_no_earlier [OF _ assms [unfolded walk_def]])
  fix m m' :: result and a
  assume "(case dict_get all_submissions a of Inl e \<Rightarrow> Inl e
          | Inr submissions \<Rightarrow> for_each (nonzero_step_lp assignments students a) submissions m) = Inr m'"
  then obtain subs where "for_each (nonzero_step_lp assignments students a) subs m = Inr m'"
    by (auto split: sum.splits)
  then show "no_earlier (m s) (m' s)"
    by (rule for_each_no_earlier [rotated]) (rule nonzero_step_lp_no_earlier)
qed

text \<open>
  C10. In the nonzero-score walk of \<^verbatim>\<open>last_participation.py\<close> no value of
  \<^verbatim>\<open>last_non_zero_score\<close> moves back: one execution of the loop body, and the walk over
  any stretch of the ordering from any state, leave each student's value unchanged or
  replace it by a strictly later due date.
\<close>

theorem last_non_zero_score_monotone:
  "(nonzero_step_lp assignments students a m sub = Inr m1 \<longrightarrow> no_earlier (m s) (m1 s))
   \<and> (walk (nonzero_step_lp assignments students) all_submissions ordered m = Inr m2 \<longrightarrow>
        no_earlier (m s) (m2 s))"
  using nonzero_step_lp_no_earlier walk_lp_no_earlier by blast

theorem last_non_zero_score_monotone_witness:
  "nonzero_step_lp ex_assignments ex_students 2 (seed ex_students (Some (2024, 1, 10, 0, 0, 0)))
       \<lparr>user_id = 7, score = JFloat (Finite 5), submitted_at = None\<rparr>
     = Inr ((seed ex_students (Some (2024, 1, 10, 0, 0, 0)))(7 \<mapsto> Some (2024, 2, 1, 0, 0, 0)))
   \<and> no_earlier (Some (Some ((2024, 1, 10, 0, 0, 0) :: datetime)))
        (Some (Some (2024, 2, 1, 0, 0, 0)))
   \<and> (\<exists>m2. walk (nonzero_step_lp ex_assignments ex_students) ex_submissions [1, 2, 3]
               (seed ex_students (Some (2024, 1, 10, 0, 0, 0))) = Inr m2
          \<and> m2 7 = Some (Some (2024, 2, 1, 0, 0, 0))
          \<and> no_earlier (Some (Some (2024, 1, 10, 0, 0, 0))) (m2 7))"
proof -
  have e: "nonzero_step_lp ex_assignments ex_students 2 (seed ex_students (Some (2024, 1, 10, 0, 0, 0)))
       \<lparr>user_id = 7, score = JFloat (Finite 5), submitted_at = None\<rparr>
     = Inr ((seed ex_students (Some (2024, 1, 10, 0, 0, 0)))(7 \<mapsto> Some (2024, 2, 1, 0, 0, 0)))"
    by (simp del: z_to_dt.simps add: ex_dates nonzero_step_lp_def dict_get_def ex_assignments_def
          ex_students_def seed_def)
  have w: "\<exists>m2. walk (nonzero_step_lp ex_assignments ex_students) ex_submissions [1, 2, 3]
               (seed ex_students (Some (2024, 1, 10, 0, 0, 0))) = Inr m2
          \<and> m2 7 = Some (Some (2024, 2, 1, 0, 0, 0))"
    by (simp del: z_to_dt.simps add: ex_dates z_to_dt.simps(1) walk_def dict_get_def
          nonzero_step_lp_def ex_submissions_def ex_assignments_def ex_students_def seed_def)
  then obtain m2 where m2: "walk (nonzero_step_lp ex_assignments ex_students) ex_submissions [1, 2, 3]
               (seed ex_students (Some (2024, 1, 10, 0, 0, 0))) = Inr m2"
    and v: "m2 7 = Some (Some (2024, 2, 1, 0, 0, 0))" by blast
  have s7: "seed ex_students (Some (2024, 1, 10, 0, 0, 0)) 7 = Some (Some (2024, 1, 10, 0, 0, 0))"
    by (simp add: seed_def ex_students_def)
  note t = last_non_zero_score_monotone [of ex_assignments ex_students 2
      "seed ex_students (Some (2024, 1, 10, 0, 0, 0))"
      "\<lparr>user_id = 7, score = JFloat (Finite 5), submitted_at = None\<rparr>"
      "(seed ex_students (Some (2024, 1, 10, 0, 0, 0)))(7 \<mapsto> Some (2024, 2, 1, 0, 0, 0))" 7
      ex_submissions "[1, 2, 3]" m2]
  from t e have a: "no_earlier (Some (Some ((2024, 1, 10, 0, 0, 0) :: datetime)))
        (Some (Some (2024, 2, 1, 0, 0, 0)))"
    unfolding s7 by simp
  from t m2 have b: "no_earlier (Some (Some (2024, 1, 10, 0, 0, 0))) (m2 7)"
    unfolding s7 by blast
  from e a m2 v b show ?thesis by blast
qed

text \<open>
  C5 fails as stated: a score of integer type, here \<open>5\<close>, on an assignment due strictly
  later than the student's current value is skipped by the test on the type of the
  score, in both scripts, and the value is not advanced.
\<close>

theorem integer_score_is_skipped:
  "(case nonzero_step_lp ex_assignments ex_students 2 (seed ex_students (Some (2024, 1, 10, 0, 0, 0)))
          \<lparr>user_id = 7, score = JInt 5, submitted_at = None\<rparr> of
      Inl e \<Rightarrow> None | Inr m \<Rightarrow> m 7) = Some (Some (2024, 1, 10, 0, 0, 0))
   \<and> (case nonzero_step_ns ex_assignments 2 (seed ex_students (Some (2024, 1, 10, 0, 0, 0)))
          \<lparr>user_id = 7, score = JInt 5, submitted_at = None\<rparr> of
      Inl e \<Rightarrow> None | Inr m \<Rightarrow> m 7) = Some (Some (2024, 1, 10, 0, 0, 0))
   \<and> z_to_dt (due_at (the (map_of ex_assignments 2))) = Inr (Some (2024, 2, 1, 0, 0, 0))"
  by (simp del: z_to_dt.simps add: ex_dates nonzero_step_lp_def nonzero_step_ns_def ex_assignments_def
        ex_students_def seed_def)

text \<open>
  C5, amended. In the nonzero-score walk of both scripts a submission is skipped by the
  first test exactly when its score is not of type float (so also when it is an
  integer); a submission whose score is a float strictly above zero, on a dated
  assignment, by an active student whose current value is strictly earlier than the due
  date, advances that student's value to the due date.
\<close>

theorem nonzero_step_score_type:
  "((\<forall>x. score sub \<noteq> JFloat x) \<longrightarrow>
      nonzero_step_lp assignments students a m sub = Inr m
      \<and> nonzero_step_ns assignments a m sub = Inr m)
   \<and> (score sub = JFloat x \<and> float_gt_zero x \<and> map_of assignments a = Some r
        \<and> z_to_dt (due_at r) = Inr (Some d) \<and> user_id sub \<in> set students
        \<and> m (user_id sub) = Some (Some c) \<and> c < d \<longrightarrow>
      nonzero_step_lp assignments students a m sub = Inr (m(user_id sub \<mapsto> Some d))
      \<and> nonzero_step_ns assignments a m sub = Inr (m(user_id sub \<mapsto> Some d)))"
  by (auto simp: nonzero_step_lp_def nonzero_step_ns_def dict_get_def split: json.splits)

theorem nonzero_step_score_type_witness:
  "nonzero_step_lp ex_assignments ex_students 2 (seed ex_students (Some (2024, 1, 10, 0, 0, 0)))
       \<lparr>user_id = 7, score = JNull, submitted_at = None\<rparr>
     = Inr (seed ex_students (Some (2024, 1, 10, 0, 0, 0)))
   \<and> float_gt_zero (Finite 5)
   \<and> z_to_dt (due_at \<lparr>due_at = Some ''2024-02-01T00:00:00Z''\<rparr>) = Inr (Some (2024, 2, 1, 0, 0, 0))
   \<and> nonzero_step_lp ex_assignments ex_students 2 (seed ex_students (Some (2024, 1, 10, 0, 0, 0)))
       \<lparr>user_id = 7, score = JFloat (Finite 5), submitted_at = None\<rparr>
     = Inr ((seed ex_students (Some (2024, 1, 10, 0, 0, 0)))(7 \<mapsto> Some (2024, 2, 1, 0, 0, 0)))"
proof -
  note a = nonzero_step_score_type [of "\<lparr>user_id = 7, score = JNull, submitted_at = None\<rparr>"
      ex_assignments ex_students 2 "seed ex_students (Some (2024, 1, 10, 0, 0, 0))"]
  note b = nonzero_step_score_type [of
      "\<lparr>user_id = 7, score = JFloat (Finite 5), submitted_at = None\<rparr>"
      ex_assignments ex_students 2 "seed ex_students (Some (2024, 1, 10, 0, 0, 0))"
      "Finite 5" "\<lparr>due_at = Some ''2024-02-01T00:00:00Z''\<rparr>" "(2024, 2, 1, 0, 0, 0)"
      "(2024, 1, 10, 0, 0, 0)"]
  have d: "z_to_dt (due_at \<lparr>due_at = Some ''2024-02-01T00:00:00Z''\<rparr>) = Inr (Some (2024, 2, 1, 0, 0, 0))"
    by (simp del: z_to_dt.simps add: ex_dates)
  from a have 1: "nonzero_step_lp ex_assignments ex_students 2 (seed ex_students (Some (2024, 1, 10, 0, 0, 0)))
       \<lparr>user_id = 7, score = JNull, submitted_at = None\<rparr>
     = Inr (seed ex_students (Some (2024, 1, 10, 0, 0, 0)))"
    by simp
  from b d have 2: "nonzero_step_lp ex_assignments ex_students 2 (seed ex_students (Some (2024, 1, 10, 0, 0, 0)))
       \<lparr>user_id = 7, score = JFloat (Finite 5), submitted_at = None\<rparr>
     = Inr ((seed ex_students (Some (2024, 1, 10, 0, 0, 0)))(7 \<mapsto> Some (2024, 2, 1, 0, 0, 0)))"
    by (simp add: ex_assignments_def ex_students_def seed_def)
  from 1 2 d show ?thesis by simp
qed

section \<open>Properties of the last-submission walk\<close>

lemma for_each_append:
  "for_each step (xs @ ys) s =
     (case for_each step xs s of Inl e \<Rightarrow> Inl e | Inr s' \<Rightarrow> for_each step ys s')"
  by (induction xs arbitrary: s) (auto split: sum.splits)

lemma for_each_nested:
  "for_each (\<lambda>m (k, xs). for_each step xs m) d s = for_each step (concat (map snd d)) s"
  by (induction d arbitrary: s) (auto simp: for_each_append split: sum.splits)

lemma foldl_later_Some: "foldl later (Some c) ts = Some (fold max ts c)"
  by (induction ts arbitrary: c) (simp_all add: later_def max.commute)

lemma foldl_later_None:
  "foldl later None ts = (if ts = [] then None else Some (Max (set ts)))"
proof (cases ts)
  case Nil
  then show ?thesis by simp
next
  case (Cons t ts')
  have "foldl later None (t # ts') = Some (fold max ts' t)"
    by (simp add: later_def foldl_later_Some)
  also have "fold max ts' t = Max (set (t # ts'))"
    by (rule Max.set_eq_fold [symmetric])
  finally show ?thesis using Cons by simp
qed

lemma times_of_Cons:
  "times_of s (sub # subs) =
     (if user_id sub = s then (case z_to_dt (submitted_at sub) of Inr (Some t) \<Rightarrow> [t] | _ \<Rightarrow> [])
      else []) @ times_of s subs"
  by (simp add: times_of_def)

text \<open>One execution of the body of the last-submission walk, on a student's value.\<close>

lemma last_submission_step_value:
  assumes ok: "submitted_ok sub" and s: "s \<in> set students"
    and inv: "\<forall>u \<in> set students. m u \<noteq> None" and v: "m s = Some v"
  shows "\<exists>m'. last_submission_step students m sub = Inr m'
           \<and> (\<forall>u \<in> set students. m' u \<noteq> None)
           \<and> m' s = Some (foldl later v (times_of s [sub]))"
proof -
  from ok obtain t where t: "z_to_dt (submitted_at sub) = Inr t"
    by (auto simp: submitted_ok_def split: sum.splits)
  show ?thesis
  proof (cases t)
    case None
    with t inv v show ?thesis
      by (simp add: last_submission_step_def times_of_def)
  next
    case (Some t')
    show ?thesis
    proof (cases "user_id sub \<in> set students")
      case False
      with t Some inv v s show ?thesis
        by (auto simp: last_submission_step_def times_of_def)
    next
      case True
      with inv obtain w where w: "m (user_id sub) = Some w" by auto
      show ?thesis
      proof (cases "user_id sub = s")
        case False
        with t Some True inv v w show ?thesis
          by (cases w) (simp_all add: last_submission_step_def times_of_def)
      next
        case same: True
        with v w have wv: "w = v" by simp
        show ?thesis
        proof (cases v)
          case None
          with t Some True inv same w wv show ?thesis
            by (simp add: last_submission_step_def times_of_def later_def)
        next
          case (Some c)
          with t \<open>t = Some t'\<close> True inv same w wv show ?thesis
            by (auto simp: last_submission_step_def times_of_def later_def max_def)
        qed
      qed
    qed
  qed
qed

lemma last_submission_loop_value:
  assumes "list_all submitted_ok subs" and "s \<in> set students"
    and "\<forall>u \<in> set students. m u \<noteq> None" and "m s = Some v"
  shows "\<exists>m'. for_each (last_submission_step students) subs m = Inr m'
           \<and> m' s = Some (foldl later v (times_of s subs))"
  using assms
proof (induction subs arbitrary: m v)
  case Nil
  then show ?case by (simp add: times_of_def)
next
  case (Cons sub subs)
  from Cons.prems have ok: "submitted_ok sub" and oks: "list_all submitted_ok subs" by simp_all
  from last_submission_step_value [OF ok Cons.prems(2,3,4)]
  obtain m1 where 1: "last_submission_step students m sub = Inr m1"
    and inv1: "\<forall>u \<in> set students. m1 u \<noteq> None"
    and v1: "m1 s = Some (foldl later v (times_of s [sub]))"
    by blast
  from Cons.IH [OF oks Cons.prems(2) inv1 v1]
  obtain m' where 2: "for_each (last_submission_step students) subs m1 = Inr m'"
    and v': "m' s = Some (foldl later (foldl later v (times_of s [sub])) (times_of s subs))"
    by blast
  have "times_of s (sub # subs) = times_of s [sub] @ times_of s subs"
    by (simp add: times_of_def)
  with 1 2 v' show ?case by simp
qed


text \<open>
  C4. When every \<^verbatim>\<open>submitted_at\<close> of the snapshot parses, the last-submission walk
  returns, and for every active student its value is the maximum \<^verbatim>\<open>submitted_at\<close>
  instant over all the student's submissions on all assignments, with or without due
  date, or \<open>None\<close> when no submission of the student has a \<^verbatim>\<open>submitted_at\<close>.
\<close>

theorem last_submission_is_latest:
  assumes "list_all (\<lambda>(a, subs). list_all submitted_ok subs) all_submissions"
    and "student \<in> set students"
  shows "\<exists>m. last_submission_lp all_submissions students = Inr m
           \<and> m student = Some (if submission_times all_submissions student = [] then None
                else Some (Max (set (submission_times all_submissions student))))"
proof -
  from assms(1) have ok: "list_all submitted_ok (concat (map snd all_submissions))"
    by (induction all_submissions) auto
  have inv: "\<forall>u \<in> set students. seed students None u \<noteq> None"
    by (simp add: seed_def)
  have v: "seed students None student = Some None"
    using assms(2) by (simp add: seed_def)
  from last_submission_loop_value [OF ok assms(2) inv v]
  show ?thesis
    unfolding last_submission_lp_def for_each_nested submission_times_def foldl_later_None .
qed

theorem last_submission_is_latest_witness:
  "list_all (\<lambda>(a, subs). list_all submitted_ok subs) ex_submissions
   \<and> 7 \<in> set ex_students \<and> 8 \<in> set ex_students
   \<and> (\<exists>m. last_submission_lp ex_submissions ex_students = Inr m
         \<and> m 7 = Some (Some (2024, 3, 1, 0, 0, 0)) \<and> m 8 = Some None)"
proof -
  have ok: "list_all (\<lambda>(a, subs). list_all submitted_ok subs) ex_submissions"
    by (simp del: z_to_dt.simps add: ex_submissions_def submitted_ok_def ex_dates z_to_dt.simps(1))
  have s: "7 \<in> set ex_students" "8 \<in> set ex_students"
    by (simp_all add: ex_students_def)
  have t7: "submission_times ex_submissions 7 = [(2024, 1, 30, 12, 0, 0), (2024, 3, 1, 0, 0, 0)]"
    by (simp del: z_to_dt.simps add: submission_times_def times_of_def ex_submissions_def ex_dates
          z_to_dt.simps(1))
  have t8: "submission_times ex_submissions 8 = []"
    by (simp del: z_to_dt.simps add: submission_times_def times_of_def ex_submissions_def)
  from last_submission_is_latest [OF ok s(1)] last_submission_is_latest [OF ok s(2)]
  show ?thesis using ok s unfolding t7 t8 by auto
qed

section \<open>Properties of the nonzero-score aggregation\<close>

lemma due_parses_iff:
  "due_parses r \<Longrightarrow> (z_to_dt (due_at r) = Inr date) = (due_date r = date)"
  by (auto simp: due_parses_def due_date_def split: sum.splits)

lemma parse_all_due:
  "list_all (\<lambda>(a, r). due_parses r) assignments \<Longrightarrow>
   parse_all (map (\<lambda>(a, r). due_at r) assignments) = Inr (map (\<lambda>(a, r). due_date r) assignments)"
  by (induction assignments) (auto simp: due_parses_def due_date_def split: sum.splits)

lemma set_somes: "set (somes ds) = {d. Some d \<in> set ds}"
  by (induction ds) (auto simp: somes_def split: option.splits)

lemma set_due_date_buckets: "set (due_date_buckets ds) = insert None (Some ` set (somes ds))"
  by (simp add: due_date_buckets_def)

lemma due_date_buckets_head:
  assumes "somes ds \<noteq> []"
  shows "\<exists>rest. due_date_buckets ds = Some (Min (set (somes ds))) # rest"
proof -
  define L where "L = sort (remdups (somes ds))"
  from assms have "L \<noteq> []" unfolding L_def
    by (metis length_0_conv length_sort remdups_eq_nil_iff)
  then obtain x L' where L: "L = x # L'" by (cases L) auto
  have "sorted L" by (simp add: L_def)
  then have "Min (set L) = x" unfolding L by (intro Min_eqI) auto
  then have "x = Min (set (somes ds))" by (simp add: L_def)
  then show ?thesis
    using L by (simp add: due_date_buckets_def L_def)
qed

lemma dated_iff: "(d \<in> set (dated assignments)) = (\<exists>a r. (a, r) \<in> set assignments \<and> due_date r = Some d)"
  unfolding dated_def set_somes by force

lemma set_buckets:
  "set (due_date_buckets (map (\<lambda>(a, r). due_date r) assignments))
     = insert None (Some ` set (dated assignments))"
  by (simp add: set_due_date_buckets dated_def)

lemma set_ordered:
  assumes "list_all (\<lambda>(a, r). due_parses r) assignments"
  shows "set (assignments_by_due_date assignments
            (due_date_buckets (map (\<lambda>(a, r). due_date r) assignments)))
         = set (map fst assignments)"
    (is "set ?o = _")
proof
  show "set ?o \<subseteq> set (map fst assignments)"
    by (auto simp: assignments_by_due_date_def)
next
  show "set (map fst assignments) \<subseteq> set ?o"
  proof
    fix a assume "a \<in> set (map fst assignments)"
    then obtain r where ar: "(a, r) \<in> set assignments" by auto
    with assms have p: "due_parses r" by (auto simp: list_all_iff)
    have "due_date r \<in> insert None (Some ` set (dated assignments))"
    proof (cases "due_date r")
      case None
      then show ?thesis by simp
    next
      case (Some d)
      with ar have "d \<in> set (dated assignments)" by (auto simp: dated_iff)
      with Some show ?thesis by simp
    qed
    then have "due_date r \<in> set (due_date_buckets (map (\<lambda>(a, r). due_date r) assignments))"
      by (simp only: set_buckets)
    moreover have "z_to_dt (due_at r) = Inr (due_date r)"
      using p by (simp add: due_parses_iff)
    ultimately show "a \<in> set ?o"
      using ar unfolding assignments_by_due_date_def by force
  qed
qed

lemma ordered_head:
  assumes ok: "list_all (\<lambda>(a, r). due_parses r) assignments" and ne: "dated assignments \<noteq> []"
  shows "\<exists>a r rest. assignments_by_due_date assignments
            (due_date_buckets (map (\<lambda>(a, r). due_date r) assignments)) = a # rest
          \<and> (a, r) \<in> set assignments \<and> due_date r = Some (Min (set (dated assignments)))"
proof -
  define x where "x = Min (set (dated assignments))"
  from due_date_buckets_head [OF ne [unfolded dated_def]]
  obtain bs where b: "due_date_buckets (map (\<lambda>(a, r). due_date r) assignments) = Some x # bs"
    unfolding x_def dated_def by blast
  have "x \<in> set (dated assignments)"
    unfolding x_def using ne by (intro Min_in) simp_all
  then obtain a0 r0 where "(a0, r0) \<in> set assignments" "due_date r0 = Some x"
    unfolding dated_iff by blast
  then have "(a0, r0) \<in> set (filter (\<lambda>(a, r). z_to_dt (due_at r) = Inr (Some x)) assignments)"
    using ok by (auto simp: list_all_iff due_parses_iff)
  then obtain p ps where f: "filter (\<lambda>(a, r). z_to_dt (due_at r) = Inr (Some x)) assignments = p # ps"
    by (cases "filter (\<lambda>(a, r). z_to_dt (due_at r) = Inr (Some x)) assignments") auto
  obtain a r where p: "p = (a, r)" by (cases p)
  have "p \<in> set (filter (\<lambda>(a, r). z_to_dt (due_at r) = Inr (Some x)) assignments)"
    unfolding f by simp
  then have ar: "(a, r) \<in> set assignments" and z: "z_to_dt (due_at r) = Inr (Some x)"
    unfolding p by auto
  from ar ok have "due_parses r" by (auto simp: list_all_iff)
  with z have d: "due_date r = Some x" by (simp add: due_parses_iff)
  have "assignments_by_due_date assignments
            (due_date_buckets (map (\<lambda>(a, r). due_date r) assignments))
        = a # (map fst ps @ assignments_by_due_date assignments bs)"
    unfolding b by (simp add: assignments_by_due_date_def f p)
  with ar d show ?thesis unfolding x_def by blast
qed

lemma map_of_distinct_in:
  "distinct (map fst d) \<Longrightarrow> (a, v) \<in> set d \<Longrightarrow> map_of d a = Some v"
  by simp

lemma order_and_seed_dated:
  assumes ok: "list_all (\<lambda>(a, r). due_parses r) assignments"
    and dist: "distinct (map fst assignments)" and ne: "dated assignments \<noteq> []"
  shows "\<exists>ordered. order_and_seed assignments = Inr (ordered, Some (Min (set (dated assignments))))
           \<and> set ordered = set (map fst assignments)"
proof -
  define ordered where "ordered = assignments_by_due_date assignments
            (due_date_buckets (map (\<lambda>(a, r). due_date r) assignments))"
  from ordered_head [OF ok ne] obtain a r rest where h: "ordered = a # rest"
    and ar: "(a, r) \<in> set assignments" and d: "due_date r = Some (Min (set (dated assignments)))"
    unfolding ordered_def by blast
  from ar ok have p: "due_parses r" by (auto simp: list_all_iff)
  have m: "map_of assignments a = Some r" using dist ar by simp
  have "z_to_dt (due_at r) = Inr (Some (Min (set (dated assignments))))"
    using p d by (simp add: due_parses_iff)
  then have f: "first_due_date assignments ordered = Inr (Some (Min (set (dated assignments))))"
    by (simp add: first_due_date_def h dict_get_def m)
  have "order_and_seed assignments = Inr (ordered, Some (Min (set (dated assignments))))"
    unfolding order_and_seed_def parse_all_due [OF ok]
    using f by (simp add: ordered_def)
  moreover have "set ordered = set (map fst assignments)"
    unfolding ordered_def by (rule set_ordered [OF ok])
  ultimately show ?thesis by blast
qed

lemma nonzero_step_lp_undated:
  assumes "map_of assignments a = Some r" and "due_date r = None" and "due_parses r"
  shows "nonzero_step_lp assignments students a m sub = Inr m"
proof -
  from assms(2,3) have "z_to_dt (due_at r) = Inr None" by (simp add: due_parses_iff)
  with assms(1) show ?thesis
    by (simp add: nonzero_step_lp_def dict_get_def split: json.splits)
qed

text \<open>
  The walk counts a score exactly when it is a float that is greater than zero: its test
  on the type and its comparison with zero against the notion read off the value.
\<close>

lemma float_positive_JFloat: "float_positive (JFloat x) = float_gt_zero x"
  by (cases x) (simp_all add: float_positive_def)

lemma float_positive_cases: "float_positive j \<Longrightarrow> \<exists>x. j = JFloat x \<and> float_gt_zero x"
  by (cases j) (simp_all add: float_positive_JFloat, simp_all add: float_positive_def)

text \<open>One execution of the body of the nonzero-score walk, on a student's value.\<close>

lemma nonzero_step_lp_value:
  assumes a: "map_of assignments a = Some r" and d: "due_date r = Some d" and p: "due_parses r"
    and s: "s \<in> set students"
    and inv: "\<forall>u \<in> set students. m u \<noteq> None \<and> m u \<noteq> Some None" and v: "m s = Some (Some c)"
  shows "\<exists>m'. nonzero_step_lp assignments students a m sub = Inr m'
           \<and> (\<forall>u \<in> set students. m' u \<noteq> None \<and> m' u \<noteq> Some None)
           \<and> m' s = Some (Some (if counted float_positive s sub then max c d else c))"
proof -
  from d p have z: "z_to_dt (due_at r) = Inr (Some d)" by (simp add: due_parses_iff)
  show ?thesis
  proof (cases "user_id sub \<in> set students \<and> float_positive (score sub)")
    case False
    then have "nonzero_step_lp assignments students a m sub = Inr m"
      using a z
      by (auto simp: nonzero_step_lp_def dict_get_def float_positive_JFloat split: json.splits)
    moreover from False s have "\<not> counted float_positive s sub" by (auto simp: counted_def)
    ultimately show ?thesis using inv v by simp
  next
    case True
    then obtain x where x: "score sub = JFloat x" "float_gt_zero x"
      using float_positive_cases by blast
    from True inv have "m (user_id sub) \<noteq> None" "m (user_id sub) \<noteq> Some None" by simp_all
    then obtain cu where cu: "m (user_id sub) = Some (Some cu)"
      by (cases "m (user_id sub)"; cases "the (m (user_id sub))") simp_all
    have step: "nonzero_step_lp assignments students a m sub
        = Inr (if cu < d then m(user_id sub \<mapsto> Some d) else m)"
      using a z x True cu by (simp add: nonzero_step_lp_def dict_get_def)
    show ?thesis
    proof (cases "user_id sub = s")
      case False
      then have "\<not> counted float_positive s sub" by (simp add: counted_def)
      with step False inv v show ?thesis by auto
    next
      case same: True
      with True have c: "counted float_positive s sub" by (simp add: counted_def)
      from same cu v have "cu = c" by simp
      with step same inv v c show ?thesis by (auto simp: max_def)
    qed
  qed
qed

lemma nonzero_loop_lp_value:
  assumes "map_of assignments a = Some r" and "due_date r = Some d" and "due_parses r"
    and "s \<in> set students"
    and "\<forall>u \<in> set students. m u \<noteq> None \<and> m u \<noteq> Some None" and "m s = Some (Some c)"
  shows "\<exists>m'. for_each (nonzero_step_lp assignments students a) subs m = Inr m'
           \<and> (\<forall>u \<in> set students. m' u \<noteq> None \<and> m' u \<noteq> Some None)
           \<and> m' s = Some (Some (fold max (map (\<lambda>sub. d) (filter (counted float_positive s) subs)) c))"
  using assms(5,6)
proof (induction subs arbitrary: m c)
  case Nil
  then show ?case by simp
next
  case (Cons sub subs)
  from nonzero_step_lp_value [OF assms(1-4) Cons.prems, of sub]
  obtain m1 where 1: "nonzero_step_lp assignments students a m sub = Inr m1"
    and inv1: "\<forall>u \<in> set students. m1 u \<noteq> None \<and> m1 u \<noteq> Some None"
    and v1: "m1 s = Some (Some (if counted float_positive s sub then max c d else c))"
    by blast
  from Cons.IH [OF inv1 v1]
  obtain m' where 2: "for_each (nonzero_step_lp assignments students a) subs m1 = Inr m'"
    and inv': "\<forall>u \<in> set students. m' u \<noteq> None \<and> m' u \<noteq> Some None"
    and v': "m' s = Some (Some (fold max (map (\<lambda>sub. d) (filter (counted float_positive s) subs))
                (if counted float_positive s sub then max c d else c)))"
    by blast
  from 1 2 inv' v' show ?case by (simp add: max.commute)
qed

lemma nonzero_assignment_lp_value:
  assumes keys: "map fst all_submissions = map fst assignments"
    and ok: "list_all (\<lambda>(a, r). due_parses r) assignments"
    and a: "a \<in> set (map fst assignments)"
    and s: "s \<in> set students"
    and inv: "\<forall>u \<in> set students. m u \<noteq> None \<and> m u \<noteq> Some None" and v: "m s = Some (Some c)"
  shows "\<exists>m'. (case dict_get all_submissions a of Inl e \<Rightarrow> Inl e
               | Inr subs \<Rightarrow> for_each (nonzero_step_lp assignments students a) subs m) = Inr m'
           \<and> (\<forall>u \<in> set students. m' u \<noteq> None \<and> m' u \<noteq> Some None)
           \<and> m' s = Some (Some (fold max (assignment_dates float_positive assignments all_submissions s a) c))"
proof -
  from map_of_fst_in [OF a] obtain r where r: "map_of assignments a = Some r"
    and ar: "(a, r) \<in> set assignments" by blast
  from ar ok have p: "due_parses r" by (auto simp: list_all_iff)
  from a keys have "a \<in> set (map fst all_submissions)" by simp
  from map_of_fst_in [OF this] obtain subs where subs: "map_of all_submissions a = Some subs"
    by blast
  show ?thesis
  proof (cases "due_date r")
    case None
    have "for_each (nonzero_step_lp assignments students a) subs m = Inr m"
      by (rule for_each_skip) (rule nonzero_step_lp_undated [OF r None p])
    then show ?thesis
      using inv v by (simp add: dict_get_def subs assignment_dates_def r None)
  next
    case (Some d)
    from nonzero_loop_lp_value [OF r Some p s inv v, of subs]
    show ?thesis
      by (simp add: dict_get_def subs assignment_dates_def r Some submissions_of_def)
  qed
qed

lemma walk_lp_value:
  assumes keys: "map fst all_submissions = map fst assignments"
    and ok: "list_all (\<lambda>(a, r). due_parses r) assignments"
    and s: "s \<in> set students"
  shows "set ordered \<subseteq> set (map fst assignments) \<Longrightarrow>
         \<forall>u \<in> set students. m u \<noteq> None \<and> m u \<noteq> Some None \<Longrightarrow> m s = Some (Some c) \<Longrightarrow>
         \<exists>m'. walk (nonzero_step_lp assignments students) all_submissions ordered m = Inr m'
           \<and> m' s = Some (Some (fold max
                (concat (map (assignment_dates float_positive assignments all_submissions s) ordered)) c))"
proof (induction ordered arbitrary: m c)
  case Nil
  then show ?case by (simp add: walk_def)
next
  case (Cons a ordered)
  from Cons.prems(1) have a: "a \<in> set (map fst assignments)"
    and rest: "set ordered \<subseteq> set (map fst assignments)" by simp_all
  from nonzero_assignment_lp_value [OF keys ok a s Cons.prems(2,3)]
  obtain m1 where 1: "(case dict_get all_submissions a of Inl e \<Rightarrow> Inl e
               | Inr subs \<Rightarrow> for_each (nonzero_step_lp assignments students a) subs m) = Inr m1"
    and inv1: "\<forall>u \<in> set students. m1 u \<noteq> None \<and> m1 u \<noteq> Some None"
    and v1: "m1 s = Some (Some (fold max (assignment_dates float_positive assignments all_submissions s a) c))"
    by blast
  from Cons.IH [OF rest inv1 v1]
  obtain m' where 2: "walk (nonzero_step_lp assignments students) all_submissions ordered m1 = Inr m'"
    and v': "m' s = Some (Some (fold max
                (concat (map (assignment_dates float_positive assignments all_submissions s) ordered))
                (fold max (assignment_dates float_positive assignments all_submissions s a) c)))"
    by blast
  from 1 2 v' show ?case by (simp add: walk_def)
qed

text \<open>The maximum of a floor and of values that are not below it.\<close>

lemma Max_with_floor:
  fixes c :: "'a::linorder"
  assumes "finite D" and "P \<subseteq> D" and "c = Min D"
  shows "c \<le> Max (insert c P)"
    and "P \<noteq> {} \<Longrightarrow> Max (insert c P) = Max P"
    and "P = {} \<Longrightarrow> Max (insert c P) = c"
proof -
  have fin: "finite P" using assms(1,2) by (rule rev_finite_subset)
  show "c \<le> Max (insert c P)" using fin by simp
  show "Max (insert c P) = c" if "P = {}" using that by simp
  show "Max (insert c P) = Max P" if ne: "P \<noteq> {}"
  proof -
    have "c \<le> Max P"
    proof -
      from ne obtain p where p: "p \<in> P" by blast
      with assms have "c \<le> p" by (auto intro: Min_le)
      also have "p \<le> Max P" using fin p by simp
      finally show ?thesis .
    qed
    then show ?thesis using fin ne by (simp add: max_def)
  qed
qed

lemma assignment_dates_in:
  assumes "d \<in> set (assignment_dates float_positive assignments all_submissions s a)"
  shows "\<exists>r. (a, r) \<in> set assignments \<and> due_date r = Some d"
proof (cases "map_of assignments a")
  case None
  with assms show ?thesis by (simp add: assignment_dates_def)
next
  case (Some r)
  show ?thesis
  proof (cases "due_date r")
    case None
    with assms Some show ?thesis by (simp add: assignment_dates_def)
  next
    case d': (Some d')
    with assms Some have "d = d'" by (simp add: assignment_dates_def) blast
    moreover from Some have "(a, r) \<in> set assignments" by (rule map_of_SomeD)
    ultimately show ?thesis using d' by blast
  qed
qed

lemma positive_dates_subset:
  "set (positive_dates float_positive assignments all_submissions s) \<subseteq> set (dated assignments)"
proof
  fix d assume "d \<in> set (positive_dates float_positive assignments all_submissions s)"
  then obtain a where "d \<in> set (assignment_dates float_positive assignments all_submissions s a)"
    unfolding positive_dates_def by auto
  from assignment_dates_in [OF this] show "d \<in> set (dated assignments)"
    unfolding dated_iff by blast
qed

lemma fold_max_Max:
  fixes c :: "'a::linorder"
  shows "fold max ds c = Max (insert c (set ds))"
  using Max.set_eq_fold [of c ds] by simp

lemma set_walk_dates:
  assumes "set ordered = set (map fst assignments)"
  shows "set (concat (map (assignment_dates float_positive assignments all_submissions student) ordered))
         = set (positive_dates float_positive assignments all_submissions student)"
proof -
  have "set (concat (map (assignment_dates float_positive assignments all_submissions student) ordered))
        = (\<Union>a \<in> set ordered. set (assignment_dates float_positive assignments all_submissions student a))"
    by simp
  also have "\<dots> = (\<Union>a \<in> set (map fst assignments).
                      set (assignment_dates float_positive assignments all_submissions student a))"
    by (simp only: assms)
  also have "\<dots> = set (positive_dates float_positive assignments all_submissions student)"
    unfolding positive_dates_def by simp
  finally show ?thesis .
qed


text \<open>
  C3 fails as stated: in the example course with the score 5 of student 7 on B of
  integer type, student 7 is active and has a strictly positive score on a dated
  assignment, the maximum due date over such submissions is 2024-02-01, and the
  aggregation returns the earliest due date 2024-01-10 for the student.
\<close>

theorem integer_score_keeps_floor:
  "snapshot_ok ex_assignments integer_score_submissions
   \<and> 7 \<in> set ex_students
   \<and> positive_dates numeric_positive ex_assignments integer_score_submissions 7
       = [(2024, 2, 1, 0, 0, 0)]
   \<and> (\<exists>m. last_non_zero_score_lp ex_assignments integer_score_submissions ex_students = Inr m
         \<and> m 7 = Some (Some (2024, 1, 10, 0, 0, 0)))
   \<and> Max (set [(2024, 2, 1, 0, 0, 0) :: datetime]) \<noteq> (2024, 1, 10, 0, 0, 0)"
proof -
  have dd: "due_date \<lparr>due_at = Some ''2024-01-10T00:00:00Z''\<rparr> = Some (2024, 1, 10, 0, 0, 0)"
    "due_date \<lparr>due_at = Some ''2024-02-01T00:00:00Z''\<rparr> = Some (2024, 2, 1, 0, 0, 0)"
    "due_date \<lparr>due_at = None\<rparr> = None"
    by (simp_all del: z_to_dt.simps add: due_date_def ex_dates z_to_dt.simps(1))
  have snap: "snapshot_ok ex_assignments integer_score_submissions"
    by (simp del: z_to_dt.simps add: snapshot_ok_def ex_assignments_def
          integer_score_submissions_def due_parses_def ex_dates z_to_dt.simps(1))
  have s: "7 \<in> set ex_students" by (simp add: ex_students_def)
  have p: "positive_dates numeric_positive ex_assignments integer_score_submissions 7
       = [(2024, 2, 1, 0, 0, 0)]"
    by (simp add: positive_dates_def assignment_dates_def submissions_of_def counted_def
          numeric_positive_def ex_assignments_def integer_score_submissions_def dd)
  have r: "\<exists>m. last_non_zero_score_lp ex_assignments integer_score_submissions ex_students = Inr m
         \<and> m 7 = Some (Some (2024, 1, 10, 0, 0, 0))"
    unfolding last_non_zero_score_lp_def ex_order_and_seed
    by (simp del: z_to_dt.simps add: ex_dates z_to_dt.simps(1) walk_def dict_get_def
          nonzero_step_lp_def integer_score_submissions_def ex_assignments_def ex_students_def
          seed_def)
  have m: "Max (set [(2024, 2, 1, 0, 0, 0) :: datetime]) \<noteq> (2024, 1, 10, 0, 0, 0)"
    by simp
  from snap s p r m show ?thesis by blast
qed

text \<open>
  C3, amended. On a snapshot as the builder leaves it, with at least one dated
  assignment, the nonzero-score aggregation of \<^verbatim>\<open>last_participation.py\<close> returns, and for
  every active student the value is an instant \<open>v\<close> that is not before the earliest due
  date of the course; \<open>v\<close> is the maximum due date over the student's submissions on dated
  assignments whose score is a float strictly greater than zero if there is one, and the
  earliest due date of the course if there is none.
\<close>

theorem last_non_zero_score_is_latest_positive:
  assumes snap: "snapshot_ok assignments all_submissions"
    and ne: "dated assignments \<noteq> []"
    and s: "student \<in> set students"
  shows "\<exists>m v. last_non_zero_score_lp assignments all_submissions students = Inr m
           \<and> m student = Some (Some v)
           \<and> Min (set (dated assignments)) \<le> v
           \<and> (positive_dates float_positive assignments all_submissions student \<noteq> [] \<longrightarrow>
                v = Max (set (positive_dates float_positive assignments all_submissions student)))
           \<and> (positive_dates float_positive assignments all_submissions student = [] \<longrightarrow>
                v = Min (set (dated assignments)))"
proof -
  from snap have dist: "distinct (map fst assignments)"
    unfolding snapshot_ok_def by (elim conjE)
  from snap have keys: "map fst all_submissions = map fst assignments"
    unfolding snapshot_ok_def by (elim conjE)
  from snap have ok: "list_all (\<lambda>(a, r). due_parses r) assignments"
    unfolding snapshot_ok_def by (elim conjE)
  define c where "c = Min (set (dated assignments))"
  define P where "P = set (positive_dates float_positive assignments all_submissions student)"
  from order_and_seed_dated [OF ok dist ne]
  obtain ordered where o: "order_and_seed assignments = Inr (ordered, Some c)"
    and so: "set ordered = set (map fst assignments)"
    unfolding c_def by blast
  have inv: "\<forall>u \<in> set students. seed students (Some c) u \<noteq> None \<and> seed students (Some c) u \<noteq> Some None"
    by (simp add: seed_def)
  have v: "seed students (Some c) student = Some (Some c)"
    using s by (simp add: seed_def)
  from so have sub: "set ordered \<subseteq> set (map fst assignments)" by simp
  from walk_lp_value [OF keys ok s sub inv v]
  obtain m where w: "walk (nonzero_step_lp assignments students) all_submissions ordered
                       (seed students (Some c)) = Inr m"
    and mv: "m student = Some (Some (fold max
                (concat (map (assignment_dates float_positive assignments all_submissions student) ordered)) c))"
    by blast
  have mv': "m student = Some (Some (Max (insert c P)))"
    unfolding mv fold_max_Max set_walk_dates [OF so] P_def ..
  have PD: "P \<subseteq> set (dated assignments)"
    unfolding P_def by (rule positive_dates_subset)
  have fin: "finite (set (dated assignments))" by (rule finite_set)
  note fl = Max_with_floor [OF fin PD c_def]
  have r: "last_non_zero_score_lp assignments all_submissions students = Inr m"
    unfolding last_non_zero_score_lp_def o using w by simp
  show ?thesis
  proof (intro exI conjI impI)
    show "last_non_zero_score_lp assignments all_submissions students = Inr m" by (rule r)
    show "m student = Some (Some (Max (insert c P)))" by (rule mv')
    show "Min (set (dated assignments)) \<le> Max (insert c P)"
      using fl(1) unfolding c_def .
    show "Max (insert c P) = Max (set (positive_dates float_positive assignments all_submissions student))"
      if "positive_dates float_positive assignments all_submissions student \<noteq> []"
    proof -
      from that have "P \<noteq> {}" unfolding P_def by simp
      from fl(2) [OF this] show ?thesis unfolding P_def .
    qed
    show "Max (insert c P) = Min (set (dated assignments))"
      if "positive_dates float_positive assignments all_submissions student = []"
    proof -
      from that have "P = {}" unfolding P_def by simp
      from fl(3) [OF this] show ?thesis unfolding c_def .
    qed
  qed
qed

theorem last_non_zero_score_is_latest_positive_witness:
  "snapshot_ok ex_assignments ex_submissions
   \<and> dated ex_assignments = [(2024, 1, 10, 0, 0, 0), (2024, 2, 1, 0, 0, 0)]
   \<and> positive_dates float_positive ex_assignments ex_submissions 7 = [(2024, 2, 1, 0, 0, 0)]
   \<and> positive_dates float_positive ex_assignments ex_submissions 8 = []
   \<and> (\<exists>m. last_non_zero_score_lp ex_assignments ex_submissions ex_students = Inr m
         \<and> m 7 = Some (Some (2024, 2, 1, 0, 0, 0)) \<and> m 8 = Some (Some (2024, 1, 10, 0, 0, 0)))"
proof -
  have dd: "due_date \<lparr>due_at = Some ''2024-01-10T00:00:00Z''\<rparr> = Some (2024, 1, 10, 0, 0, 0)"
    "due_date \<lparr>due_at = Some ''2024-02-01T00:00:00Z''\<rparr> = Some (2024, 2, 1, 0, 0, 0)"
    "due_date \<lparr>due_at = None\<rparr> = None"
    by (simp_all del: z_to_dt.simps add: due_date_def ex_dates z_to_dt.simps(1))
  have snap: "snapshot_ok ex_assignments ex_submissions"
    by (simp del: z_to_dt.simps add: snapshot_ok_def ex_assignments_def ex_submissions_def
          due_parses_def ex_dates z_to_dt.simps(1))
  have d: "dated ex_assignments = [(2024, 1, 10, 0, 0, 0), (2024, 2, 1, 0, 0, 0)]"
    by (simp add: dated_def somes_def ex_assignments_def dd)
  have p7: "positive_dates float_positive ex_assignments ex_submissions 7 = [(2024, 2, 1, 0, 0, 0)]"
    by (simp add: positive_dates_def assignment_dates_def submissions_of_def counted_def
          float_positive_def ex_assignments_def ex_submissions_def dd)
  have p8: "positive_dates float_positive ex_assignments ex_submissions 8 = []"
    by (simp add: positive_dates_def assignment_dates_def submissions_of_def counted_def
          float_positive_def ex_assignments_def ex_submissions_def dd)
  have ne: "dated ex_assignments \<noteq> []" by (simp add: d)
  have s: "7 \<in> set ex_students" "8 \<in> set ex_students" by (simp_all add: ex_students_def)
  from last_non_zero_score_is_latest_positive [OF snap ne s(1)]
    last_non_zero_score_is_latest_positive [OF snap ne s(2)]
  have "\<exists>m. last_non_zero_score_lp ex_assignments ex_submissions ex_students = Inr m
         \<and> m 7 = Some (Some (2024, 2, 1, 0, 0, 0)) \<and> m 8 = Some (Some (2024, 1, 10, 0, 0, 0))"
    unfolding d p7 p8 by auto
  with snap d p7 p8 show ?thesis by blast
qed

section \<open>Inactive students and the example course\<close>

text \<open>
  In \<^verbatim>\<open>last_participation.py\<close> both loop bodies leave the results as they are on a
  submission of a student who is not active, whenever they do not raise on a timestamp.
\<close>

lemma inactive_submission_ignored_lp:
  assumes "user_id sub \<notin> set students"
  shows "nonzero_step_lp assignments students a m sub = Inr m
         \<or> (\<exists>e. nonzero_step_lp assignments students a m sub = Inl e)"
    and "submitted_ok sub \<Longrightarrow> last_submission_step students m sub = Inr m"
proof -
  show "nonzero_step_lp assignments students a m sub = Inr m
         \<or> (\<exists>e. nonzero_step_lp assignments students a m sub = Inl e)"
    using assms
    by (simp add: nonzero_step_lp_def split: json.splits sum.splits option.splits)
  show "last_submission_step students m sub = Inr m" if "submitted_ok sub"
    using assms that
    by (simp add: last_submission_step_def submitted_ok_def split: sum.splits option.splits)
qed

text \<open>
  The example of the specification: for student 7 the last nonzero due date is that of
  B (C has no due date), and the last submission is that on C.
\<close>

lemma last_participation_example:
  "case last_participation ex_assignments ex_submissions ex_students of
     Inl e \<Rightarrow> False
   | Inr (last_non_zero_score, last_submission) \<Rightarrow>
       last_non_zero_score 7 = Some (Some (2024, 2, 1, 0, 0, 0))
       \<and> last_submission 7 = Some (Some (2024, 3, 1, 0, 0, 0))
       \<and> last_non_zero_score 99 = None \<and> last_submission 99 = None"
  unfolding last_participation_def last_non_zero_score_lp_def last_submission_lp_def
    ex_order_and_seed
  by (simp del: z_to_dt.simps add: ex_dates z_to_dt.simps(1) walk_def dict_get_def
        nonzero_step_lp_def last_submission_step_def ex_submissions_def ex_assignments_def
        ex_students_def seed_def)

end
